theory Spec2Isabelle
  imports Complex_Main "HOL-Library.AList"
begin

section \<open>JavaScript numbers, dates and errors\<close>

text \<open>
  A JavaScript number is a finite value, NaN or one of the two infinities. Finite values
  are idealised as rationals: rounding of IEEE doubles is not modelled, overflow only where
  a response depends on it (what \<open>res.json\<close> writes, below); the special values and the
  comparison rules (every comparison with NaN is false) are.
\<close>

datatype jsnum = Num rat | NaN | PosInf | NegInf

fun isFinite :: "jsnum \<Rightarrow> bool" where
  "isFinite (Num _) = True"
| "isFinite _ = False"

text \<open>\<open>a < b\<close> on JavaScript numbers.\<close>

fun js_lt :: "jsnum \<Rightarrow> jsnum \<Rightarrow> bool" where
  "js_lt NaN _ = False"
| "js_lt _ NaN = False"
| "js_lt (Num a) (Num b) = (a < b)"
| "js_lt (Num _) PosInf = True"
| "js_lt (Num _) NegInf = False"
| "js_lt PosInf _ = False"
| "js_lt NegInf NegInf = False"
| "js_lt NegInf _ = True"

definition js_gt :: "jsnum \<Rightarrow> jsnum \<Rightarrow> bool" where
  "js_gt a b = js_lt b a"

text \<open>\<open>a <= b\<close>: less or equal, and false as soon as one side is NaN.\<close>

definition js_le :: "jsnum \<Rightarrow> jsnum \<Rightarrow> bool" where
  "js_le a b = (a \<noteq> NaN \<and> b \<noteq> NaN \<and> (js_lt a b \<or> a = b))"

text \<open>\<open>a * b\<close>, with the IEEE rules for the special values.\<close>

fun js_mult :: "jsnum \<Rightarrow> jsnum \<Rightarrow> jsnum" where
  "js_mult NaN _ = NaN"
| "js_mult _ NaN = NaN"
| "js_mult (Num a) (Num b) = Num (a * b)"
| "js_mult (Num a) PosInf = (if a = 0 then NaN else if 0 < a then PosInf else NegInf)"
| "js_mult (Num a) NegInf = (if a = 0 then NaN else if 0 < a then NegInf else PosInf)"
| "js_mult PosInf (Num b) = (if b = 0 then NaN else if 0 < b then PosInf else NegInf)"
| "js_mult NegInf (Num b) = (if b = 0 then NaN else if 0 < b then NegInf else PosInf)"
| "js_mult PosInf PosInf = PosInf"
| "js_mult PosInf NegInf = NegInf"
| "js_mult NegInf PosInf = NegInf"
| "js_mult NegInf NegInf = PosInf"

text \<open>\<open>x || 0\<close> on a number: the falsy numbers are 0 and NaN.\<close>

fun orZero :: "jsnum \<Rightarrow> jsnum" where
  "orZero NaN = Num 0"
| "orZero x = x"

text \<open>
  \<open>new Date(s).getTime()\<close> is a parameter of the model, of type
  \<open>string \<Rightarrow> int option\<close>: the time value in milliseconds, or \<open>None\<close> for an invalid
  date (where JavaScript gives NaN). \<open>sampleDates\<close> tabulates it at the strings the
  examples below use.
\<close>

type_synonym dateParser = "string \<Rightarrow> int option"

definition sampleDates :: dateParser where
  "sampleDates s =
     (if s = ''1969-12-31T23:59:59.000Z'' then Some (- 1000)
      else if s = ''1970-01-01T00:00:00.000Z'' then Some 0
      else if s = ''1970-01-01T00:01:40.000Z'' then Some 100000
      else if s = ''2024-01-01T00:00:00.000Z'' then Some 1704067200000
      else None)"

text \<open>
  \<open>Math.floor(new Date(boughtAt).getTime() / 1000)\<close>: NaN stays NaN (\<open>None\<close>), a time
  value is divided rounding down.
\<close>

definition unixSeconds :: "dateParser \<Rightarrow> string \<Rightarrow> int option" where
  "unixSeconds parse boughtAt = map_option (\<lambda>ms. ms div 1000) (parse boughtAt)"

datatype js_error =
    RangeError
  | UpstreamStatus nat
  | FetchRejected
  | JsonSyntaxError
  | FailedToLoad
  | NoPoolFound
  | UnknownUpstreamError

text \<open>
  \<open>new Date(tv).toISOString()\<close> for a finite \<open>tv\<close>: the constructor clips the time
  value (beyond 8.64e15 ms it is an invalid date, otherwise the value is truncated towards
  zero), and \<open>toISOString\<close> throws a RangeError on an invalid date. The ISO string is
  represented by the time value it prints.
\<close>

definition toISOString :: "rat \<Rightarrow> js_error + int" where
  "toISOString tv =
     (if 8640000000000000 < \<bar>tv\<bar> then Inl RangeError
      else Inr (if 0 \<le> tv then \<lfloor>tv\<rfloor> else \<lceil>tv\<rceil>))"

section \<open>The optimal-exit calculator\<close>

record candle =
  timestamp :: rat
  high :: rat

record bestSell =
  bestSellAt :: "int option"
  bestSellPrice :: "rat option"
  bestPlPercent :: "rat option"

definition nullBestSell :: bestSell where
  "nullBestSell = \<lparr>bestSellAt = None, bestSellPrice = None, bestPlPercent = None\<rparr>"

definition populated :: "bestSell \<Rightarrow> bool" where
  "populated r = (bestSellAt r \<noteq> None \<and> bestSellPrice r \<noteq> None \<and> bestPlPercent r \<noteq> None)"

text \<open>The callback of \<open>reduce\<close>: a later candle replaces the best one only when strictly higher.\<close>

definition better :: "candle \<Rightarrow> candle \<Rightarrow> candle" where
  "better best current = (if high best < high current then current else best)"

text \<open>
  \<open>computeBestSell({ buyPrice, boughtAt }, candles)\<close>. \<open>reduce\<close> without an initial
  value starts from the first element; it is only reached on a non-empty list.
\<close>

definition computeBestSell ::
  "dateParser \<Rightarrow> jsnum \<Rightarrow> string \<Rightarrow> candle list \<Rightarrow> js_error + bestSell" where
  "computeBestSell parse buyPrice boughtAt candles =
     (case buyPrice of
        Num b \<Rightarrow>
          if b \<le> 0 then Inr nullBestSell
          else
            (case unixSeconds parse boughtAt of
               None \<Rightarrow> Inr nullBestSell
             | Some boughtAtUnixSeconds \<Rightarrow>
                 if boughtAtUnixSeconds \<le> 0 then Inr nullBestSell
                 else
                   (case filter (\<lambda>c. of_int boughtAtUnixSeconds \<le> timestamp c) candles of
                      [] \<Rightarrow> Inr nullBestSell
                    | first # rest \<Rightarrow>
                        let bestCandle = foldl better first rest;
                            bestPlPercent = ((high bestCandle - b) / b) * 100
                        in (case toISOString (timestamp bestCandle * 1000) of
                              Inl e \<Rightarrow> Inl e
                            | Inr isoTime \<Rightarrow>
                                Inr \<lparr>bestSellAt = Some isoTime,
                                     bestSellPrice = Some (high bestCandle),
                                     bestPlPercent = Some bestPlPercent\<rparr>)))
      | _ \<Rightarrow> Inr nullBestSell)"

section \<open>The upstream service and the network state\<close>

text \<open>
  The two GeckoTerminal endpoints the code calls: the pool listing of a token, and one page
  of minute candles of a pool, with or without the \<open>before_timestamp\<close> cursor.
\<close>

datatype url = PoolsUrl string | OhlcvUrl string "rat option"

text \<open>
  Of a JSON body the code reads two places only: \<open>data[0].attributes.address\<close> and
  \<open>data.attributes.ohlcv_list\<close> (each \<open>None\<close> when the optional chain gives
  undefined). A raw candle row is kept as the pair \<open>(Number(row[0]), Number(row[2]))\<close>.
\<close>

record json =
  pool_address :: "string option"
  ohlcv_list :: "(jsnum \<times> jsnum) list option"

text \<open>
  What one call of \<open>fetch\<close> gives: the promise rejects, or a response with a status and a
  body (\<open>None\<close> when \<open>response.json()\<close> rejects).
\<close>

datatype outcome = Rejected | Response nat "json option"

text \<open>
  The upstream answers a call depending on the URL and on how many calls were made before.
  The network state counts the calls of \<open>fetch\<close> and of \<open>fetchJsonWithRetry\<close> and logs the
  sleeps, in milliseconds.
\<close>

type_synonym upstream = "url \<Rightarrow> nat \<Rightarrow> outcome"

record net =
  fetches :: nat
  requests :: nat
  slept :: "nat list"

definition net0 :: net where
  "net0 = \<lparr>fetches = 0, requests = 0, slept = []\<rparr>"

definition fetch :: "upstream \<Rightarrow> url \<Rightarrow> net \<Rightarrow> outcome \<times> net" where
  "fetch up u s = (up u (fetches s), s\<lparr>fetches := fetches s + 1\<rparr>)"

definition sleep :: "nat \<Rightarrow> net \<Rightarrow> net" where
  "sleep ms s = s\<lparr>slept := slept s @ [ms]\<rparr>"

text \<open>\<open>response.ok\<close>: a status from 200 to 299.\<close>

definition ok :: "nat \<Rightarrow> bool" where
  "ok status = (200 \<le> status \<and> status \<le> 299)"

definition retryable :: "nat \<Rightarrow> bool" where
  "retryable status = (status = 429 \<or> 500 \<le> status)"

section \<open>fetchJsonWithRetry\<close>

text \<open>The \<open>catch\<close> block: it sleeps unless this was the last attempt.\<close>

definition catchBlock :: "nat \<Rightarrow> nat \<Rightarrow> net \<Rightarrow> net" where
  "catchBlock attempts attempt s = (if attempt < attempts then sleep (250 * attempt) s else s)"

text \<open>
  The \<open>for\<close> loop of \<open>fetchJsonWithRetry\<close>, from \<open>attempt\<close> on. Whatever is thrown inside
  the \<open>try\<close> block (a rejected fetch, a body that does not parse, and the error the block
  itself throws on a status it does not retry) is caught by the \<open>catch\<close> block of the same
  statement, which records it and lets the loop go on.
\<close>

function retryLoop ::
  "upstream \<Rightarrow> url \<Rightarrow> nat \<Rightarrow> nat \<Rightarrow> js_error option \<Rightarrow> net \<Rightarrow> (js_error + json) \<times> net" where
  "retryLoop up u attempts attempt lastError s =
     (if attempt \<le> attempts then
        (let response = fst (fetch up u s); s1 = snd (fetch up u s) in
         case response of
           Rejected \<Rightarrow>
             retryLoop up u attempts (attempt + 1) (Some FetchRejected)
               (catchBlock attempts attempt s1)
         | Response status body \<Rightarrow>
             if ok status then
               (case body of
                  Some j \<Rightarrow> (Inr j, s1)
                | None \<Rightarrow>
                    retryLoop up u attempts (attempt + 1) (Some JsonSyntaxError)
                      (catchBlock attempts attempt s1))
             else if \<not> retryable status \<or> attempt = attempts then
               retryLoop up u attempts (attempt + 1) (Some (UpstreamStatus status))
                 (catchBlock attempts attempt s1)
             else retryLoop up u attempts (attempt + 1) lastError (sleep (250 * attempt) s1))
      else (Inl (case lastError of Some e \<Rightarrow> e | None \<Rightarrow> UnknownUpstreamError), s))"
  by pat_completeness auto
termination
  by (relation "measure (\<lambda>(up, u, attempts, attempt, lastError, s). attempts + 1 - attempt)") auto

declare retryLoop.simps [simp del]

definition fetchJsonWithRetry ::
  "upstream \<Rightarrow> url \<Rightarrow> nat \<Rightarrow> net \<Rightarrow> (js_error + json) \<times> net" where
  "fetchJsonWithRetry up u attempts s =
     retryLoop up u attempts 1 None (s\<lparr>requests := requests s + 1\<rparr>)"

definition fetchTopSolanaPoolAddress ::
  "upstream \<Rightarrow> string \<Rightarrow> net \<Rightarrow> (js_error + string) \<times> net" where
  "fetchTopSolanaPoolAddress up tokenAddress s =
     (case fetchJsonWithRetry up (PoolsUrl tokenAddress) 3 s of
        (Inl e, s1) \<Rightarrow> (Inl e, s1)
      | (Inr poolsJson, s1) \<Rightarrow>
          (case pool_address poolsJson of
             None \<Rightarrow> (Inl NoPoolFound, s1)
           | Some topPoolAddress \<Rightarrow>
               if topPoolAddress = [] then (Inl NoPoolFound, s1) else (Inr topPoolAddress, s1)))"

section \<open>The time-series fetcher\<close>

text \<open>
  One raw row becomes a candle when its timestamp and its high are finite and the high is
  positive; the other rows are dropped. The source maps every row to an object and filters
  afterwards; only the objects that pass the filter are candles here.
\<close>

definition toCandle :: "jsnum \<times> jsnum \<Rightarrow> candle option" where
  "toCandle row =
     (case row of
        (Num t, Num h) \<Rightarrow> if 0 < h then Some \<lparr>timestamp = t, high = h\<rparr> else None
      | _ \<Rightarrow> None)"

definition pageCandlesOf :: "(jsnum \<times> jsnum) list \<Rightarrow> candle list" where
  "pageCandlesOf ohlcvList = List.map_filter toCandle ohlcvList"

definition maxPages :: nat where
  "maxPages = 100"

text \<open>\<open>Math.min\<close> over the timestamps of a non-empty page, given as its head and tail.\<close>

definition oldestOf :: "candle \<Rightarrow> candle list \<Rightarrow> rat" where
  "oldestOf c cs = fold min (map timestamp cs) (timestamp c)"

text \<open>
  The early exit: \<open>Number.isFinite(stopBeforeTimestamp) && oldestTimestamp <= stopBeforeTimestamp\<close>.
  The floor is \<open>None\<close> when it is NaN or not given.
\<close>

definition reachedStop :: "int option \<Rightarrow> rat \<Rightarrow> bool" where
  "reachedStop stopBeforeTimestamp oldestTimestamp =
     (case stopBeforeTimestamp of None \<Rightarrow> False | Some st \<Rightarrow> oldestTimestamp \<le> of_int st)"

text \<open>
  The \<open>while\<close> loop of \<open>fetchAllMinuteCandles\<close> (the variant with the early exit), from the
  state \<open>(beforeTimestamp, pageCount, candles)\<close> on. It returns the candles pushed so far,
  in the order they were fetched.
\<close>

function pagesLoop ::
  "upstream \<Rightarrow> string \<Rightarrow> int option \<Rightarrow> rat option \<Rightarrow> nat \<Rightarrow> candle list \<Rightarrow> net
     \<Rightarrow> (js_error + candle list) \<times> net" where
  "pagesLoop up poolAddress stopBeforeTimestamp beforeTimestamp pageCount candles s =
     (if pageCount < maxPages then
        (let r = fetchJsonWithRetry up (OhlcvUrl poolAddress beforeTimestamp) 3 s; s1 = snd r in
         case fst r of
           Inl e \<Rightarrow> (Inl e, s1)
         | Inr ohlcvJson \<Rightarrow>
             (let ohlcvList = (case ohlcv_list ohlcvJson of None \<Rightarrow> [] | Some rows \<Rightarrow> rows) in
              if length ohlcvList = 0 then (Inr candles, s1)
              else
                (let pageCandles = pageCandlesOf ohlcvList; candles1 = candles @ pageCandles in
                 case pageCandles of
                   [] \<Rightarrow> (Inr candles1, s1)
                 | c # cs \<Rightarrow>
                     (let oldestTimestamp = oldestOf c cs in
                      if reachedStop stopBeforeTimestamp oldestTimestamp then (Inr candles1, s1)
                      else if length ohlcvList < 1000 then (Inr candles1, s1)
                      else pagesLoop up poolAddress stopBeforeTimestamp
                             (Some (oldestTimestamp - 60)) (pageCount + 1) candles1 s1))))
      else (Inr candles, s))"
  by pat_completeness auto
termination
  by (relation "measure (\<lambda>(up, p, st, b, pageCount, cs, s). maxPages - pageCount)") auto

declare pagesLoop.simps [simp del]

text \<open>
  The body of the loop after the fetch, as one step: the candles after the push, and the
  next cursor, or \<open>None\<close> where the loop breaks. \<open>pagesLoop_unfold\<close> below shows that
  the loop is the iteration of this step.
\<close>

definition pageStep :: "int option \<Rightarrow> json \<Rightarrow> candle list \<Rightarrow> candle list \<times> rat option" where
  "pageStep st ohlcvJson candles =
     (let ohlcvList = (case ohlcv_list ohlcvJson of None \<Rightarrow> [] | Some rows \<Rightarrow> rows) in
      if length ohlcvList = 0 then (candles, None)
      else
        (case pageCandlesOf ohlcvList of
           [] \<Rightarrow> (candles, None)
         | c # cs \<Rightarrow>
             if reachedStop st (oldestOf c cs) \<or> length ohlcvList < 1000
             then (candles @ c # cs, None)
             else (candles @ c # cs, Some (oldestOf c cs - 60))))"

text \<open>
  The \<open>Map\<close> keyed by timestamp is an association list in insertion order: \<open>set\<close> on a key
  that is present replaces the value in place, on a new key it appends. The values are then
  sorted by timestamp.
\<close>

definition uniqueByTimestamp :: "candle list \<Rightarrow> (rat \<times> candle) list" where
  "uniqueByTimestamp candles = fold (\<lambda>c m. AList.update (timestamp c) c m) candles []"

definition uniqueSorted :: "candle list \<Rightarrow> candle list" where
  "uniqueSorted candles = sort_key timestamp (map snd (uniqueByTimestamp candles))"

text \<open>
  The candle fetched last at a timestamp, among the candles in the order they were fetched:
  the value the claims about deduplication speak of.
\<close>

definition latestFetched :: "candle list \<Rightarrow> rat \<Rightarrow> candle option" where
  "latestFetched fetched t = find (\<lambda>c. timestamp c = t) (rev fetched)"

text \<open>The valid candles of one page.\<close>

definition pageOf :: "json \<Rightarrow> candle list" where
  "pageOf ohlcvJson =
     pageCandlesOf (case ohlcv_list ohlcvJson of None \<Rightarrow> [] | Some rows \<Rightarrow> rows)"

definition fetchAllMinuteCandles ::
  "upstream \<Rightarrow> string \<Rightarrow> int option \<Rightarrow> net \<Rightarrow> (js_error + candle list) \<times> net" where
  "fetchAllMinuteCandles up poolAddress stopBeforeTimestamp s =
     (case pagesLoop up poolAddress stopBeforeTimestamp None 0 [] s of
        (Inl e, s1) \<Rightarrow> (Inl e, s1)
      | (Inr candles, s1) \<Rightarrow> (Inr (uniqueSorted candles), s1))"

text \<open>
  The variant of \<open>api/best-sell.js\<close>: it calls \<open>fetch\<close> directly, throws on a response
  that is not ok, and has no early exit.
\<close>

function pagesLoop_noStop ::
  "upstream \<Rightarrow> string \<Rightarrow> rat option \<Rightarrow> nat \<Rightarrow> candle list \<Rightarrow> net
     \<Rightarrow> (js_error + candle list) \<times> net" where
  "pagesLoop_noStop up poolAddress beforeTimestamp pageCount candles s =
     (if pageCount < maxPages then
        (let r = fetch up (OhlcvUrl poolAddress beforeTimestamp) s; s1 = snd r in
         case fst r of
           Rejected \<Rightarrow> (Inl FetchRejected, s1)
         | Response status body \<Rightarrow>
             if \<not> ok status then (Inl FailedToLoad, s1)
             else
               (case body of
                  None \<Rightarrow> (Inl JsonSyntaxError, s1)
                | Some ohlcvJson \<Rightarrow>
                    (let ohlcvList = (case ohlcv_list ohlcvJson of None \<Rightarrow> [] | Some rows \<Rightarrow> rows) in
                     if length ohlcvList = 0 then (Inr candles, s1)
                     else
                       (let pageCandles = pageCandlesOf ohlcvList;
                            candles1 = candles @ pageCandles in
                        case pageCandles of
                          [] \<Rightarrow> (Inr candles1, s1)
                        | c # cs \<Rightarrow>
                            (let oldestTimestamp = oldestOf c cs in
                             if length ohlcvList < 1000 then (Inr candles1, s1)
                             else pagesLoop_noStop up poolAddress
                                    (Some (oldestTimestamp - 60)) (pageCount + 1) candles1 s1)))))
      else (Inr candles, s))"
  by pat_completeness auto
termination
  by (relation "measure (\<lambda>(up, p, b, pageCount, cs, s). maxPages - pageCount)") auto

declare pagesLoop_noStop.simps [simp del]

definition fetchAllMinuteCandles_noStop ::
  "upstream \<Rightarrow> string \<Rightarrow> net \<Rightarrow> (js_error + candle list) \<times> net" where
  "fetchAllMinuteCandles_noStop up poolAddress s =
     (case pagesLoop_noStop up poolAddress None 0 [] s of
        (Inl e, s1) \<Rightarrow> (Inl e, s1)
      | (Inr candles, s1) \<Rightarrow> (Inr (uniqueSorted candles), s1))"

section \<open>What res.json writes\<close>

text \<open>
  The record of \<open>computeBestSell\<close> holds the percentage as a rational, where the code holds
  a double. \<open>res.json\<close> writes null for a number that is not finite, so the response
  depends on whether the double overflowed. A real number whose magnitude reaches
  \<open>2^1024 - 2^970\<close> rounds to an infinity as a double (rounding below that bound is not
  modelled).
\<close>

definition overflowBound :: rat where
  "overflowBound = 2 ^ 1024 - 2 ^ 970"

definition toDouble :: "rat \<Rightarrow> jsnum" where
  "toDouble x =
     (if overflowBound \<le> \<bar>x\<bar> then (if 0 < x then PosInf else NegInf) else Num x)"

text \<open>
  The double that \<open>((bestCandle.high - buyPrice) / buyPrice) * 100\<close> computes for a buy
  price above zero (the only case where the code computes it): each of the three operations
  can overflow, and an infinity divided by or multiplied with a positive number stays.
\<close>

definition percentDouble :: "rat \<Rightarrow> rat \<Rightarrow> jsnum" where
  "percentDouble h b =
     (case toDouble (h - b) of
        Num d \<Rightarrow> (case toDouble (d / b) of Num q \<Rightarrow> toDouble (q * 100) | x \<Rightarrow> x)
      | x \<Rightarrow> x)"

text \<open>
  \<open>res.json(result)\<close> for the record of \<open>computeBestSell\<close>: the time is a string and the
  price a finite number, the percentage is written as null when its double is not finite.
\<close>

definition resJson :: "jsnum \<Rightarrow> bestSell \<Rightarrow> bestSell" where
  "resJson buyPrice result =
     (case (buyPrice, bestSellPrice result) of
        (Num b, Some h) \<Rightarrow>
          if isFinite (percentDouble h b) then result else result\<lparr>bestPlPercent := None\<rparr>
      | _ \<Rightarrow> result)"

section \<open>The best-exit query endpoint\<close>

text \<open>
  A request: its method and the three query parameters (\<open>None\<close> when absent).
  \<open>Number(...)\<close> on a query string is a parameter of the model; \<open>Number(undefined)\<close> is NaN.
\<close>

record request =
  req_method :: string
  q_mintAddress :: "string option"
  q_boughtAt :: "string option"
  q_buyPrice :: "string option"

text \<open>
  A response: a rejection with its status, or the envelope \<open>res.status(st).json(...)\<close>
  with the result as it is written and the warning, if any.
\<close>

datatype response = Reject nat | Envelope nat bestSell "js_error option"

definition handler ::
  "dateParser \<Rightarrow> (string \<Rightarrow> jsnum) \<Rightarrow> upstream \<Rightarrow> request \<Rightarrow> net \<Rightarrow> response \<times> net" where
  "handler parse toNumber up req s =
     (if req_method req \<noteq> ''GET'' then (Reject 405, s)
      else
        (let mintAddress = (case q_mintAddress req of None \<Rightarrow> [] | Some v \<Rightarrow> v);
             boughtAt = (case q_boughtAt req of None \<Rightarrow> [] | Some v \<Rightarrow> v);
             buyPrice = (case q_buyPrice req of None \<Rightarrow> NaN | Some v \<Rightarrow> toNumber v)
         in
           if mintAddress = [] \<or> boughtAt = [] \<or> \<not> isFinite buyPrice then (Reject 400, s)
           else
             (let boughtAtUnixSeconds = unixSeconds parse boughtAt in
              case fetchTopSolanaPoolAddress up mintAddress s of
                (Inl e, s1) \<Rightarrow> (Envelope 200 nullBestSell (Some e), s1)
              | (Inr poolAddress, s1) \<Rightarrow>
                  (case fetchAllMinuteCandles up poolAddress boughtAtUnixSeconds s1 of
                     (Inl e, s2) \<Rightarrow> (Envelope 200 nullBestSell (Some e), s2)
                   | (Inr minuteCandles, s2) \<Rightarrow>
                       (case computeBestSell parse buyPrice boughtAt minuteCandles of
                          Inl e \<Rightarrow> (Envelope 200 nullBestSell (Some e), s2)
                        | Inr result \<Rightarrow>
                            (Envelope 200 (resJson buyPrice result) None, s2))))))"

section \<open>The position lifecycle engine: exit evaluation\<close>

text \<open>
  A row of the Holdings table. \<open>buy_price\<close> is the value of \<open>Number(h.buy_price)\<close>;
  \<open>sell_price\<close> is \<open>None\<close> while the column is null.
\<close>

record holding =
  symbol :: string
  mint_address :: string
  bought_at :: string
  buy_price :: jsnum
  sell_price :: "jsnum option"

text \<open>
  The price snapshot maps a mint to its \<open>usdPrice\<close>; a mint without entry gives undefined,
  and \<open>Number(undefined)\<close> is NaN.
\<close>

type_synonym prices = "string \<Rightarrow> jsnum option"

definition usdPrice :: "prices \<Rightarrow> string \<Rightarrow> jsnum" where
  "usdPrice currentPrices mint = (case currentPrices mint of None \<Rightarrow> NaN | Some v \<Rightarrow> v)"

definition sixteenHours :: int where
  "sixteenHours = 16 * 60 * 60 * 1000"

text \<open>The predicate of the \<open>coinsToSell\<close> filter.\<close>

definition shouldSell :: "dateParser \<Rightarrow> int \<Rightarrow> prices \<Rightarrow> holding \<Rightarrow> bool" where
  "shouldSell parse now currentPrices h =
     (let buyPrice = orZero (buy_price h);
          boughtTime = parse (bought_at h);
          heldOver16Hours =
            (case boughtTime of None \<Rightarrow> False | Some t \<Rightarrow> sixteenHours < now - t)
      in
        if heldOver16Hours then True
        else if js_le buyPrice (Num 0) then False
        else
          (let currentPrice = orZero (usdPrice currentPrices (mint_address h))
           in js_gt currentPrice (js_mult buyPrice (Num (3 / 2)))))"

text \<open>
  The update \<open>.update({ sell_price }).eq('mint_address', mint).is('sell_price', null)\<close>:
  it writes the rows of that mint whose sell price is still null.
\<close>

definition closeHolding :: "string \<Rightarrow> jsnum \<Rightarrow> holding list \<Rightarrow> holding list" where
  "closeHolding mint price table =
     map (\<lambda>row. if mint_address row = mint \<and> sell_price row = None
                 then row\<lparr>sell_price := Some price\<rparr> else row) table"

text \<open>
  Part B of one pass over the Holdings table: select the rows whose sell price is null,
  filter the ones to sell, and close each of them at \<open>usdPrice || 0\<close>. A failed select
  (\<open>activeError\<close>) skips the block. The updates of one pass are issued together; each
  writes the open rows of its own mint at that mint's price, so they are applied here one
  after the other, in the order of \<open>coinsToSell\<close>.
\<close>

definition activeHoldings :: "holding list \<Rightarrow> holding list" where
  "activeHoldings table = filter (\<lambda>h. sell_price h = None) table"

definition coinsToSell :: "dateParser \<Rightarrow> int \<Rightarrow> prices \<Rightarrow> holding list \<Rightarrow> holding list" where
  "coinsToSell parse now currentPrices table =
     filter (shouldSell parse now currentPrices) (activeHoldings table)"

definition sellPass ::
  "dateParser \<Rightarrow> bool \<Rightarrow> int \<Rightarrow> prices \<Rightarrow> holding list \<Rightarrow> holding list" where
  "sellPass parse activeError now currentPrices table =
     (if \<not> activeError \<and> activeHoldings table \<noteq> [] then
        fold (\<lambda>h tbl. closeHolding (mint_address h)
                        (orZero (usdPrice currentPrices (mint_address h))) tbl)
          (coinsToSell parse now currentPrices table) table
      else table)"

section \<open>The position lifecycle engine: opening positions and the whole pass\<close>

text \<open>
  Part A writes the Holdings table in one place: it inserts one open row (\<open>sell_price\<close>
  null) per new token, bought at the price of the token or at 0 when the price is missing.
  Nothing is inserted when there is no new token or when the insert fails.
\<close>

record token =
  t_symbol :: string
  tokenMint :: string

definition holdingsRecords :: "string \<Rightarrow> prices \<Rightarrow> token list \<Rightarrow> holding list" where
  "holdingsRecords nowIso newPrices newTokens =
     map (\<lambda>token. \<lparr>symbol = t_symbol token, mint_address = tokenMint token, bought_at = nowIso,
                    buy_price = (case newPrices (tokenMint token) of Some v \<Rightarrow> v | None \<Rightarrow> Num 0),
                    sell_price = None\<rparr>) newTokens"

definition buyStep :: "string \<Rightarrow> prices \<Rightarrow> bool \<Rightarrow> token list \<Rightarrow> holding list \<Rightarrow> holding list" where
  "buyStep nowIso newPrices holdingsError newTokens table =
     (if newTokens \<noteq> [] \<and> \<not> holdingsError then table @ holdingsRecords nowIso newPrices newTokens
      else table)"

text \<open>
  What one pass meets: whether it throws before it reaches the Holdings table (a failed
  discovery request or select), the new tokens and their prices, whether the insert and the
  select of the open rows fail, the clock, and the price snapshot of the open rows.
\<close>

record pass =
  p_aborted :: bool
  p_newTokens :: "token list"
  p_newPrices :: prices
  p_holdingsError :: bool
  p_nowIso :: string
  p_activeError :: bool
  p_now :: int
  p_currentPrices :: prices

definition lifecyclePass :: "dateParser \<Rightarrow> pass \<Rightarrow> holding list \<Rightarrow> holding list" where
  "lifecyclePass parse env table =
     (if p_aborted env then table
      else sellPass parse (p_activeError env) (p_now env) (p_currentPrices env)
             (buyStep (p_nowIso env) (p_newPrices env) (p_holdingsError env) (p_newTokens env) table))"

definition lifecyclePasses :: "dateParser \<Rightarrow> pass list \<Rightarrow> holding list \<Rightarrow> holding list" where
  "lifecyclePasses parse envs table = fold (lifecyclePass parse) envs table"

section \<open>Sample inputs\<close>

text \<open>A body with an empty candle list and no pool.\<close>

definition emptyPage :: json where
  "emptyPage = \<lparr>pool_address = None, ohlcv_list = Some []\<rparr>"

text \<open>An upstream that answers 404 to the first call and 200 afterwards.\<close>

definition notFoundThenOk :: upstream where
  "notFoundThenOk u n = (if n = 0 then Response 404 None else Response 200 (Some emptyPage))"

text \<open>An upstream that answers 404 to every call.\<close>

definition alwaysNotFound :: upstream where
  "alwaysNotFound u n = Response 404 None"

text \<open>
  A holding of the mint \<open>mintA\<close>, a price snapshot for it, a table of two open holdings
  of different mints (the first with a date that does not parse), and a pass without new
  tokens.
\<close>

definition sampleHolding :: "jsnum \<Rightarrow> string \<Rightarrow> jsnum option \<Rightarrow> holding" where
  "sampleHolding buy boughtAt sell =
     \<lparr>symbol = ''MEME'', mint_address = ''mintA'', bought_at = boughtAt, buy_price = buy,
      sell_price = sell\<rparr>"

definition samplePrices :: "jsnum \<Rightarrow> prices" where
  "samplePrices p mint = (if mint = ''mintA'' then Some p else None)"

definition sampleTable :: "holding list" where
  "sampleTable =
     [sampleHolding (Num 2) ''not-a-date'' None,
      (sampleHolding (Num 2) ''2024-01-01T00:00:00.000Z'' None)\<lparr>mint_address := ''mintB''\<rparr>]"

definition samplePass :: "int \<Rightarrow> prices \<Rightarrow> pass" where
  "samplePass t cp =
     \<lparr>p_aborted = False, p_newTokens = [], p_newPrices = (\<lambda>m. None), p_holdingsError = False,
      p_nowIso = ''2024-01-01T00:00:00.000Z'', p_activeError = False, p_now = t,
      p_currentPrices = cp\<rparr>"

text \<open>
  \<open>Number(...)\<close> at the query strings the examples use, an upstream that knows one pool
  without candles, and a well-formed request.
\<close>

definition sampleNumber :: "string \<Rightarrow> jsnum" where
  "sampleNumber v =
     (if v = ''1'' then Num 1 else if v = ''-5'' then Num (- 5)
      else if v = ''1e-10'' then Num (1 / 10 ^ 10) else NaN)"

definition quietPool :: upstream where
  "quietPool u n =
     (case u of
        PoolsUrl _ \<Rightarrow> Response 200 (Some \<lparr>pool_address = Some ''poolA'', ohlcv_list = None\<rparr>)
      | OhlcvUrl _ _ \<Rightarrow> Response 200 (Some emptyPage))"

text \<open>An upstream that knows one pool with one candle, whose high is 1e308.\<close>

definition hugeHigh :: upstream where
  "hugeHigh u n =
     (case u of
        PoolsUrl _ \<Rightarrow> Response 200 (Some \<lparr>pool_address = Some ''poolA'', ohlcv_list = None\<rparr>)
      | OhlcvUrl _ _ \<Rightarrow>
          Response 200 (Some \<lparr>pool_address = None,
            ohlcv_list = Some [(Num 1704067260, Num (10 ^ 308))]\<rparr>))"

definition sampleRequest :: request where
  "sampleRequest = \<lparr>req_method = ''GET'', q_mintAddress = Some ''mintA'',
     q_boughtAt = Some ''2024-01-01T00:00:00.000Z'', q_buyPrice = Some ''1''\<rparr>"

text \<open>
  An upstream whose first page has 1000 rows, the oldest at 160, and whose second page
  comes back with a candle at 160 again, an older one, and two rows that are not valid.
\<close>

definition overlappingPages :: upstream where
  "overlappingPages u n =
     (case u of
        PoolsUrl _ \<Rightarrow> Response 200 (Some \<lparr>pool_address = Some ''poolA'', ohlcv_list = None\<rparr>)
      | OhlcvUrl _ None \<Rightarrow>
          Response 200 (Some \<lparr>pool_address = None,
            ohlcv_list = Some (replicate 999 (Num 200, Num 5) @ [(Num 160, Num 4)])\<rparr>)
      | OhlcvUrl _ (Some _) \<Rightarrow>
          Response 200 (Some \<lparr>pool_address = None,
            ohlcv_list = Some [(Num 160, Num 6), (Num 100, Num 3), (NaN, Num 1), (Num 40, Num 0)]\<rparr>))"

text \<open>
  An upstream that honours the cursor: the first page has 1000 rows, the oldest at 100;
  the page before a cursor holds one candle, 60 seconds older than the cursor, with a high
  above every high of the first page.
\<close>

definition olderPage :: "rat option \<Rightarrow> json" where
  "olderPage b =
     (case b of
        None \<Rightarrow> \<lparr>pool_address = None,
                  ohlcv_list = Some (replicate 999 (Num 200, Num 5) @ [(Num 100, Num 4)])\<rparr>
      | Some cursor \<Rightarrow> \<lparr>pool_address = None, ohlcv_list = Some [(Num (cursor - 60), Num 9)]\<rparr>)"

definition olderPages :: upstream where
  "olderPages u n =
     (case u of
        PoolsUrl _ \<Rightarrow> Response 200 (Some \<lparr>pool_address = Some ''poolA'', ohlcv_list = None\<rparr>)
      | OhlcvUrl _ b \<Rightarrow> Response 200 (Some (olderPage b)))"

section \<open>Properties of the optimal-exit calculator\<close>

lemma foldl_better_split:
  "\<exists>pre post. first # rest = pre @ foldl better first rest # post
     \<and> (\<forall>c\<in>set pre. high c < high (foldl better first rest))
     \<and> (\<forall>c\<in>set post. high c \<le> high (foldl better first rest))"
proof (induction rest rule: rev_induct)
  case Nil
  have "first # [] = [] @ foldl better first [] # []" by simp
  then show ?case by (metis empty_iff list.set(1))
next
  case (snoc x xs)
  then obtain pre post where split: "first # xs = pre @ foldl better first xs # post"
    and lo: "\<forall>c\<in>set pre. high c < high (foldl better first xs)"
    and hi: "\<forall>c\<in>set post. high c \<le> high (foldl better first xs)"
    by blast
  let ?best = "foldl better first xs"
  show ?case
  proof (cases "high ?best < high x")
    case True
    then have new: "foldl better first (xs @ [x]) = x" by (simp add: better_def)
    have "first # xs @ [x] = (pre @ ?best # post) @ x # []" using split by simp
    moreover have "\<forall>c\<in>set (pre @ ?best # post). high c < high x"
      using lo hi True by fastforce
    ultimately show ?thesis unfolding new by (metis empty_iff list.set(1))
  next
    case False
    then have same: "foldl better first (xs @ [x]) = ?best" by (simp add: better_def)
    have "first # xs @ [x] = pre @ ?best # (post @ [x])" using split by simp
    moreover have "\<forall>c\<in>set (post @ [x]). high c \<le> high ?best" using hi False by auto
    ultimately show ?thesis unfolding same using lo by blast
  qed
qed

lemma toISOString_in_range:
  "0 \<le> tv \<Longrightarrow> tv \<le> 8640000000000000 \<Longrightarrow> toISOString tv = Inr \<lfloor>tv\<rfloor>"
  by (simp add: toISOString_def)

text \<open>
  Claim C1, as the code has it. For a finite buy price above zero, a purchase time that
  parses to a second after the epoch second 0, and a candle list in ascending order of
  timestamps (within the range of \<open>Date\<close>) with at least one candle at or after the
  purchase second: \<open>computeBestSell\<close> returns a candle \<open>best\<close> at or after the purchase
  second whose high is the maximum among those candles and whose timestamp is the earliest
  among the candles reaching that maximum; \<open>bestSellPrice\<close> is its high, \<open>bestSellAt\<close> its
  time and \<open>bestPlPercent\<close> is \<open>(high - buyPrice) / buyPrice * 100\<close>.
\<close>

theorem computeBestSell_earliest_max:
  assumes pos: "0 < b"
    and secs: "unixSeconds parse boughtAt = Some secs" "0 < secs"
    and some: "\<exists>c\<in>set candles. of_int secs \<le> timestamp c"
    and asc: "sorted (map timestamp candles)"
    and range: "\<forall>c\<in>set candles. timestamp c * 1000 \<le> 8640000000000000"
  shows "\<exists>best\<in>set candles. of_int secs \<le> timestamp best
      \<and> (\<forall>c\<in>set candles. of_int secs \<le> timestamp c \<longrightarrow>
            high c \<le> high best \<and> (high c = high best \<longrightarrow> timestamp best \<le> timestamp c))
      \<and> computeBestSell parse (Num b) boughtAt candles =
          Inr \<lparr>bestSellAt = Some \<lfloor>timestamp best * 1000\<rfloor>,
               bestSellPrice = Some (high best),
               bestPlPercent = Some ((high best - b) / b * 100)\<rparr>"
proof -
  let ?after = "filter (\<lambda>c. of_int secs \<le> timestamp c) candles"
  from some have "?after \<noteq> []" by (auto simp: filter_empty_conv)
  then obtain first rest where fr: "?after = first # rest" by (cases ?after) auto
  let ?best = "foldl better first rest"
  obtain pre post where split: "first # rest = pre @ ?best # post"
    and lo: "\<forall>c\<in>set pre. high c < high ?best"
    and hi: "\<forall>c\<in>set post. high c \<le> high ?best"
    using foldl_better_split by blast
  have mem: "?best \<in> set ?after" using fr split by (metis in_set_conv_decomp)
  then have in_c: "?best \<in> set candles" and ge: "of_int secs \<le> timestamp ?best" by auto
  have "sorted (map timestamp ?after)" using asc by (simp add: sorted_filter)
  then have "sorted (map timestamp (pre @ ?best # post))" using fr split by simp
  then have later: "\<forall>c\<in>set post. timestamp ?best \<le> timestamp c"
    by (auto simp: sorted_append)
  have max: "\<forall>c\<in>set candles. of_int secs \<le> timestamp c \<longrightarrow>
      high c \<le> high ?best \<and> (high c = high ?best \<longrightarrow> timestamp ?best \<le> timestamp c)"
  proof (intro ballI impI)
    fix c assume "c \<in> set candles" "of_int secs \<le> timestamp c"
    then have "c \<in> set ?after" by simp
    then have "c \<in> set (pre @ ?best # post)" using fr split by simp
    then consider "c \<in> set pre" | "c = ?best" | "c \<in> set post" by auto
    then show "high c \<le> high ?best \<and> (high c = high ?best \<longrightarrow> timestamp ?best \<le> timestamp c)"
      using lo hi later by cases fastforce+
  qed
  have "0 \<le> timestamp ?best * 1000"
  proof -
    have "(0::rat) \<le> of_int secs" using secs(2) by simp
    then show ?thesis using ge by simp
  qed
  then have iso: "toISOString (timestamp ?best * 1000) = Inr \<lfloor>timestamp ?best * 1000\<rfloor>"
    using range in_c by (simp add: toISOString_in_range)
  have "computeBestSell parse (Num b) boughtAt candles =
          Inr \<lparr>bestSellAt = Some \<lfloor>timestamp ?best * 1000\<rfloor>,
               bestSellPrice = Some (high ?best),
               bestPlPercent = Some ((high ?best - b) / b * 100)\<rparr>"
    using pos secs fr iso by (simp add: computeBestSell_def Let_def)
  with in_c ge max show ?thesis by blast
qed


text \<open>
  The theorem at the series 100, 160, 220, 280 with highs 2, 5, 5, 3, bought at second 100
  for 1: of the two candles with the maximum 5 the earlier one is returned, with 400 percent.
\<close>

theorem computeBestSell_earliest_max_witness:
  "computeBestSell sampleDates (Num 1) ''1970-01-01T00:01:40.000Z''
     [\<lparr>timestamp = 100, high = 2\<rparr>, \<lparr>timestamp = 160, high = 5\<rparr>,
      \<lparr>timestamp = 220, high = 5\<rparr>, \<lparr>timestamp = 280, high = 3\<rparr>]
   = Inr \<lparr>bestSellAt = Some 160000, bestSellPrice = Some 5, bestPlPercent = Some 400\<rparr>"
proof -
  let ?cs = "[\<lparr>timestamp = 100, high = 2\<rparr>, \<lparr>timestamp = 160, high = 5\<rparr>,
      \<lparr>timestamp = 220, high = 5\<rparr>, \<lparr>timestamp = 280, high = (3::rat)\<rparr>]"
  have h1: "(0::rat) < 1" by simp
  have h2: "unixSeconds sampleDates ''1970-01-01T00:01:40.000Z'' = Some 100"
    by (simp add: unixSeconds_def sampleDates_def)
  have h3: "(0::int) < 100" by simp
  have h4: "\<exists>c\<in>set ?cs. of_int 100 \<le> timestamp c" by simp
  have h5: "sorted (map timestamp ?cs)" by simp
  have h6: "\<forall>c\<in>set ?cs. timestamp c * 1000 \<le> 8640000000000000" by simp
  from computeBestSell_earliest_max [OF h1 h2 h3 h4 h5 h6]
  obtain best where b: "best \<in> set ?cs"
    and m: "\<forall>c\<in>set ?cs. of_int 100 \<le> timestamp c \<longrightarrow>
            high c \<le> high best \<and> (high c = high best \<longrightarrow> timestamp best \<le> timestamp c)"
    and r: "computeBestSell sampleDates (Num 1) ''1970-01-01T00:01:40.000Z'' ?cs =
          Inr \<lparr>bestSellAt = Some \<lfloor>timestamp best * 1000\<rfloor>,
               bestSellPrice = Some (high best),
               bestPlPercent = Some ((high best - 1) / 1 * 100)\<rparr>"
    by blast
  from b m have "best = \<lparr>timestamp = 160, high = 5\<rparr>" by auto
  with r show ?thesis by simp
qed

text \<open>
  Claim C1 as stated fails for a purchase time at the epoch: the time parses, a candle lies
  after it, and the guard \<open>boughtAtUnixSeconds <= 0\<close> gives the all-absent result.
\<close>

theorem computeBestSell_epoch_counterexample:
  "unixSeconds sampleDates ''1970-01-01T00:00:00.000Z'' = Some 0
   \<and> of_int 0 \<le> timestamp \<lparr>timestamp = 100, high = 2\<rparr>
   \<and> computeBestSell sampleDates (Num 1) ''1970-01-01T00:00:00.000Z''
        [\<lparr>timestamp = 100, high = 2\<rparr>] = Inr nullBestSell"
  by (simp add: computeBestSell_def sampleDates_def unixSeconds_def)

lemma foldl_better_mem: "foldl better first rest \<in> set (first # rest)"
  using foldl_better_split [of first rest] by (metis in_set_conv_decomp)

lemma filter_Cons_ex: "filter P xs = y # ys \<Longrightarrow> \<exists>c\<in>set xs. P c"
  using filter_empty_conv [of P xs] by auto

text \<open>
  Claim C3, as the code has it. \<open>computeBestSell\<close> returns the all-absent result exactly
  when the buy price is not a finite value above zero, or the purchase time does not parse,
  or it parses to a second that is not after the epoch second 0, or no candle has a
  timestamp at or after the purchase second. When every candle timestamp is within the
  range of \<open>Date\<close>, the result is the all-absent one or a populated one.
\<close>

theorem computeBestSell_absent_iff:
  "(computeBestSell parse buyPrice boughtAt candles = Inr nullBestSell \<longleftrightarrow>
      (\<not> (\<exists>b. buyPrice = Num b \<and> 0 < b)
       \<or> (case unixSeconds parse boughtAt of
             None \<Rightarrow> True
           | Some secs \<Rightarrow> secs \<le> 0 \<or> \<not> (\<exists>c\<in>set candles. of_int secs \<le> timestamp c))))
   \<and> ((\<forall>c\<in>set candles. timestamp c * 1000 \<le> 8640000000000000) \<longrightarrow>
        computeBestSell parse buyPrice boughtAt candles = Inr nullBestSell
        \<or> (\<exists>r. computeBestSell parse buyPrice boughtAt candles = Inr r \<and> populated r))"
proof -
  let ?absent = "\<not> (\<exists>b. buyPrice = Num b \<and> 0 < b)
       \<or> (case unixSeconds parse boughtAt of
             None \<Rightarrow> True
           | Some secs \<Rightarrow> secs \<le> 0 \<or> \<not> (\<exists>c\<in>set candles. of_int secs \<le> timestamp c))"
  have iff: "computeBestSell parse buyPrice boughtAt candles = Inr nullBestSell \<longleftrightarrow> ?absent"
    by (auto simp: computeBestSell_def nullBestSell_def Let_def filter_empty_conv
        split: jsnum.splits option.splits list.splits sum.splits dest: filter_Cons_ex)
  have pop: "computeBestSell parse buyPrice boughtAt candles = Inr nullBestSell
        \<or> (\<exists>r. computeBestSell parse buyPrice boughtAt candles = Inr r \<and> populated r)"
    if range: "\<forall>c\<in>set candles. timestamp c * 1000 \<le> 8640000000000000"
  proof (cases ?absent)
    case True
    then show ?thesis using iff by simp
  next
    case False
    then obtain b where b: "buyPrice = Num b" "0 < b" by blast
    from False obtain secs where s: "unixSeconds parse boughtAt = Some secs" "0 < secs"
      and ex: "\<exists>c\<in>set candles. of_int secs \<le> timestamp c"
      by (cases "unixSeconds parse boughtAt") auto
    from ex have "filter (\<lambda>c. of_int secs \<le> timestamp c) candles \<noteq> []"
      by (auto simp: filter_empty_conv)
    then obtain first rest where fr: "filter (\<lambda>c. of_int secs \<le> timestamp c) candles = first # rest"
      by (cases "filter (\<lambda>c. of_int secs \<le> timestamp c) candles") auto
    let ?best = "foldl better first rest"
    have "?best \<in> set (filter (\<lambda>c. of_int secs \<le> timestamp c) candles)"
      using foldl_better_mem fr by simp
    then have in_c: "?best \<in> set candles" and ge: "of_int secs \<le> timestamp ?best" by auto
    have "(0::rat) \<le> of_int secs" using s(2) by simp
    then have "0 \<le> timestamp ?best * 1000" using ge by simp
    then have "toISOString (timestamp ?best * 1000) = Inr \<lfloor>timestamp ?best * 1000\<rfloor>"
      using range in_c by (simp add: toISOString_in_range)
    then show ?thesis using b s fr by (simp add: computeBestSell_def Let_def populated_def)
  qed
  from iff pop show ?thesis by blast
qed

text \<open>
  The theorem at a buy price of 0 (absent) and at a buy price of 1 with a candle after the
  purchase (populated).
\<close>

theorem computeBestSell_absent_iff_witness:
  "computeBestSell sampleDates (Num 0) ''1970-01-01T00:01:40.000Z''
     [\<lparr>timestamp = 160, high = 5\<rparr>] = Inr nullBestSell
   \<and> (\<exists>r. computeBestSell sampleDates (Num 1) ''1970-01-01T00:01:40.000Z''
          [\<lparr>timestamp = 160, high = 5\<rparr>] = Inr r \<and> populated r)"
  using computeBestSell_absent_iff [of sampleDates "Num 0" "''1970-01-01T00:01:40.000Z''"
      "[\<lparr>timestamp = 160, high = 5\<rparr>]"]
    computeBestSell_absent_iff [of sampleDates "Num 1" "''1970-01-01T00:01:40.000Z''"
      "[\<lparr>timestamp = 160, high = 5\<rparr>]"]
  by (auto simp: unixSeconds_def sampleDates_def)

text \<open>
  Claim C3 as stated fails for a purchase time before the epoch: the buy price is finite
  and positive, the time parses, a candle lies after it, and the result is all absent.
\<close>

theorem computeBestSell_before_epoch_counterexample:
  "isFinite (Num 2) \<and> (0::rat) < 2
   \<and> unixSeconds sampleDates ''1969-12-31T23:59:59.000Z'' = Some (- 1)
   \<and> of_int (- 1) \<le> timestamp \<lparr>timestamp = 60, high = 3\<rparr>
   \<and> computeBestSell sampleDates (Num 2) ''1969-12-31T23:59:59.000Z''
        [\<lparr>timestamp = 60, high = 3\<rparr>] = Inr nullBestSell"
  by (simp add: computeBestSell_def sampleDates_def unixSeconds_def)

text \<open>
  On a list that is not in ascending order the first candle in scan order wins a tie, and a
  candle timestamp beyond the range of \<open>Date\<close> makes \<open>toISOString\<close> throw.
\<close>

lemma computeBestSell_scan_order:
  "computeBestSell sampleDates (Num 1) ''1970-01-01T00:01:40.000Z''
     [\<lparr>timestamp = 200, high = 5\<rparr>, \<lparr>timestamp = 100, high = 5\<rparr>]
   = Inr \<lparr>bestSellAt = Some 200000, bestSellPrice = Some 5, bestPlPercent = Some 400\<rparr>"
  by (simp add: computeBestSell_def sampleDates_def unixSeconds_def better_def toISOString_def)

lemma computeBestSell_range_error:
  "computeBestSell sampleDates (Num 1) ''1970-01-01T00:01:40.000Z''
     [\<lparr>timestamp = 10000000000000, high = 5\<rparr>] = Inl RangeError"
  by (simp add: computeBestSell_def sampleDates_def unixSeconds_def toISOString_def)

section \<open>Properties of fetchJsonWithRetry\<close>

lemma retryLoop_requests:
  "requests (snd (retryLoop up u attempts attempt lastError s)) = requests s"
proof (induction up u attempts attempt lastError s rule: retryLoop.induct)
  case (1 up u attempts attempt lastError s)
  show ?case
    apply (subst retryLoop.simps)
    using 1
    by (auto simp: Let_def fetch_def catchBlock_def sleep_def split: outcome.splits option.splits)
qed

lemma retryLoop_fetches:
  "fetches (snd (retryLoop up u attempts attempt lastError s)) \<le> fetches s + (attempts + 1 - attempt)"
proof (induction up u attempts attempt lastError s rule: retryLoop.induct)
  case (1 up u attempts attempt lastError s)
  show ?case
    apply (subst retryLoop.simps)
    using 1
    by (auto simp: Let_def fetch_def catchBlock_def sleep_def split: outcome.splits option.splits)
qed


lemma fetchJsonWithRetry_requests:
  "requests (snd (fetchJsonWithRetry up u attempts s)) = requests s + 1"
  by (simp add: fetchJsonWithRetry_def retryLoop_requests)

lemma fetchJsonWithRetry_fetches:
  "fetches (snd (fetchJsonWithRetry up u attempts s)) \<le> fetches s + attempts"
  using retryLoop_fetches [of up u attempts 1 None "s\<lparr>requests := requests s + 1\<rparr>"]
  by (simp add: fetchJsonWithRetry_def)


text \<open>
  A response that is not ok, retryable or not, before the last attempt: the loop sleeps
  250 ms times the attempt number and goes on to the next attempt.
\<close>

lemma retryLoop_not_ok:
  assumes "up u (fetches s) = Response status body" and "\<not> ok status" and "attempt < attempts"
  shows "retryLoop up u attempts attempt lastError s =
     retryLoop up u attempts (attempt + 1)
       (if retryable status then lastError else Some (UpstreamStatus status))
       (sleep (250 * attempt) (s\<lparr>fetches := fetches s + 1\<rparr>))"
  using assms by (subst retryLoop.simps) (simp add: fetch_def catchBlock_def Let_def)

text \<open>
  Claim C2 at a status that is not retryable. On 404 followed by 200 the request does not
  fail: it sleeps 250 ms, makes a second attempt and returns the second body. On 404 at
  every call it makes three attempts, sleeping 250 and 500 ms, before it throws.
\<close>

theorem fetchJsonWithRetry_retries_404:
  "fetchJsonWithRetry notFoundThenOk u 3 net0
     = (Inr emptyPage, \<lparr>fetches = 2, requests = 1, slept = [250]\<rparr>)
   \<and> fetchJsonWithRetry alwaysNotFound u 3 net0
     = (Inl (UpstreamStatus 404), \<lparr>fetches = 3, requests = 1, slept = [250, 500]\<rparr>)"
  by (simp add: fetchJsonWithRetry_def net0_def notFoundThenOk_def alwaysNotFound_def fetch_def
      ok_def retryable_def catchBlock_def sleep_def Let_def retryLoop.simps [of _ _ _ "Suc 0"]
      retryLoop.simps [of _ _ _ "Suc (Suc 0)"] retryLoop.simps [of _ _ _ "Suc (Suc (Suc 0))"]
      retryLoop.simps [of _ _ _ "Suc (Suc (Suc (Suc 0)))"])

section \<open>Properties of the time-series fetcher\<close>

lemma pagesLoop_unfold:
  "pagesLoop up p st b n cs s =
     (if n < maxPages then
        (case fetchJsonWithRetry up (OhlcvUrl p b) 3 s of
           (Inl e, s1) \<Rightarrow> (Inl e, s1)
         | (Inr j, s1) \<Rightarrow>
             (case pageStep st j cs of
                (cs1, None) \<Rightarrow> (Inr cs1, s1)
              | (cs1, Some b1) \<Rightarrow> pagesLoop up p st (Some b1) (n + 1) cs1 s1))
      else (Inr cs, s))"
  by (subst pagesLoop.simps)
    (auto simp: pageStep_def Let_def split: prod.splits sum.splits list.splits)

lemma pagesLoop_induct_step:
  assumes step: "\<And>b n cs s.
      (\<And>j s1 cs1 b1. n < maxPages \<Longrightarrow> fetchJsonWithRetry up (OhlcvUrl p b) 3 s = (Inr j, s1)
          \<Longrightarrow> pageStep st j cs = (cs1, Some b1) \<Longrightarrow> P (Some b1) (n + 1) cs1 s1)
      \<Longrightarrow> P b n cs s"
  shows "P b n cs s"
proof (induction "maxPages - n" arbitrary: b n cs s rule: less_induct)
  case less
  show ?case
  proof (rule step)
    fix j s1 cs1 b1
    assume "n < maxPages"
    then have "maxPages - (n + 1) < maxPages - n" by simp
    then show "P (Some b1) (n + 1) cs1 s1" by (rule less)
  qed
qed

lemma pagesLoop_bounds:
  "requests (snd (pagesLoop up p st b n cs s)) \<le> requests s + (maxPages - n)
   \<and> fetches (snd (pagesLoop up p st b n cs s)) \<le> fetches s + 3 * (maxPages - n)"
proof (induction b n cs s rule: pagesLoop_induct_step [where up = up and p = p and st = st])
  case (1 b n cs s)
  show ?case
  proof (cases "n < maxPages")
    case False
    then show ?thesis by (simp add: pagesLoop_unfold)
  next
    case True
    obtain r s1 where f: "fetchJsonWithRetry up (OhlcvUrl p b) 3 s = (r, s1)"
      by (cases "fetchJsonWithRetry up (OhlcvUrl p b) 3 s")
    have s1: "requests s1 = requests s + 1" "fetches s1 \<le> fetches s + 3"
      using fetchJsonWithRetry_requests [of up "OhlcvUrl p b" 3 s]
        fetchJsonWithRetry_fetches [of up "OhlcvUrl p b" 3 s] f by simp_all
    from True obtain k where k: "maxPages - n = Suc k" "maxPages - (n + 1) = k"
      by (cases "maxPages - n") simp_all
    show ?thesis
    proof (cases r)
      case (Inl e)
      then show ?thesis using True f s1 k by (simp add: pagesLoop_unfold [of up p st b n])
    next
      case (Inr j)
      obtain cs1 nb where ps: "pageStep st j cs = (cs1, nb)" by (cases "pageStep st j cs")
      show ?thesis
      proof (cases nb)
        case None
        then show ?thesis using True f s1 k Inr ps
          by (simp add: pagesLoop_unfold [of up p st b n])
      next
        case (Some b1)
        let ?rec = "pagesLoop up p st (Some b1) (n + 1) cs1 s1"
        have "requests (snd ?rec) \<le> requests s1 + (maxPages - (n + 1))
              \<and> fetches (snd ?rec) \<le> fetches s1 + 3 * (maxPages - (n + 1))"
          using 1 True f Inr ps Some by blast
        then have ih: "requests (snd ?rec) \<le> requests s1 + k
              \<and> fetches (snd ?rec) \<le> fetches s1 + 3 * k"
          unfolding k(2) .
        have res: "pagesLoop up p st b n cs s = ?rec"
          using True f Inr ps Some by (simp add: pagesLoop_unfold [of up p st b n])
        show ?thesis unfolding res k(1) using ih s1 by auto
      qed
    qed
  qed
qed

text \<open>
  Claim C9. For every pool, every floor and every upstream, \<open>fetchAllMinuteCandles\<close>
  returns (the loop is a total function: each iteration that goes on increases the page
  count, which is bounded by 100), having called \<open>fetchJsonWithRetry\<close> for at most 100
  pages, with at most 3 fetches each.
\<close>

theorem fetchAllMinuteCandles_page_cap:
  "(\<exists>result s1. fetchAllMinuteCandles up poolAddress stopBeforeTimestamp s = (result, s1)
      \<and> requests s1 \<le> requests s + 100 \<and> fetches s1 \<le> fetches s + 300)"
proof -
  obtain r s1 where p: "pagesLoop up poolAddress stopBeforeTimestamp None 0 [] s = (r, s1)"
    by (cases "pagesLoop up poolAddress stopBeforeTimestamp None 0 [] s")
  have "requests s1 \<le> requests s + 100 \<and> fetches s1 \<le> fetches s + 300"
    using pagesLoop_bounds [of up poolAddress stopBeforeTimestamp None 0 "[]" s] p
    by (simp add: maxPages_def)
  then show ?thesis using p
    by (cases r) (simp_all add: fetchAllMinuteCandles_def)
qed

section \<open>Properties of the exit rule\<close>

text \<open>The filter callback, for a date that parses and for one that does not.\<close>

lemma shouldSell_parsed:
  assumes "parse (bought_at h) = Some t"
  shows "shouldSell parse now currentPrices h \<longleftrightarrow>
     (sixteenHours < now - t
      \<or> (js_gt (buy_price h) (Num 0)
          \<and> js_gt (usdPrice currentPrices (mint_address h)) (js_mult (buy_price h) (Num (3 / 2)))))"
  using assms
  by (cases "buy_price h"; cases "usdPrice currentPrices (mint_address h)")
    (auto simp: shouldSell_def Let_def js_gt_def js_le_def)

lemma shouldSell_unparsed:
  assumes "parse (bought_at h) = None"
  shows "shouldSell parse now currentPrices h \<longleftrightarrow>
     (js_gt (buy_price h) (Num 0)
      \<and> js_gt (usdPrice currentPrices (mint_address h)) (js_mult (buy_price h) (Num (3 / 2))))"
  using assms
  by (cases "buy_price h"; cases "usdPrice currentPrices (mint_address h)")
    (auto simp: shouldSell_def Let_def js_gt_def js_le_def)

text \<open>
  Claim C5. Of a table of holdings, a holding whose \<open>bought_at\<close> parses to the time \<open>t\<close> is
  among the holdings the engine selects for closing if and only if it is a row of the table
  that is open (its sell price is null) and \<open>now - t\<close> is strictly more than 16 hours, or
  its buy price is above zero and the spot price is strictly above 1.5 times the buy price
  (with the comparisons of JavaScript: a buy price or spot price that is NaN or missing
  never fires the price trigger). The filter callback decides by the same rule.
\<close>

theorem coinsToSell_iff:
  assumes "parse (bought_at h) = Some t"
  shows "(h \<in> set (coinsToSell parse now currentPrices table) \<longleftrightarrow>
       h \<in> set table \<and> sell_price h = None
       \<and> (sixteenHours < now - t
          \<or> (js_gt (buy_price h) (Num 0)
              \<and> js_gt (usdPrice currentPrices (mint_address h))
                   (js_mult (buy_price h) (Num (3 / 2))))))
     \<and> (shouldSell parse now currentPrices h \<longleftrightarrow>
         (sixteenHours < now - t
          \<or> (js_gt (buy_price h) (Num 0)
              \<and> js_gt (usdPrice currentPrices (mint_address h))
                   (js_mult (buy_price h) (Num (3 / 2))))))"
  using assms shouldSell_parsed [where parse = parse and h = h and t = t and now = now
      and currentPrices = currentPrices]
  by (auto simp: coinsToSell_def activeHoldings_def)

text \<open>
  The theorem at tables of one holding. Bought at 2 and open: a spot price of exactly 3
  after exactly 16 hours does not select it, 3.01 does. Bought at 0 and open: 16 hours and
  1 ms select it, a spot price of 5 within 16 hours does not. Closed: it is not selected
  although 16 hours have passed and the spot price is 9.
\<close>

theorem coinsToSell_iff_witness:
  "sampleHolding (Num 2) ''2024-01-01T00:00:00.000Z'' None
     \<notin> set (coinsToSell sampleDates (1704067200000 + 57600000) (samplePrices (Num 3))
          [sampleHolding (Num 2) ''2024-01-01T00:00:00.000Z'' None])
   \<and> sampleHolding (Num 2) ''2024-01-01T00:00:00.000Z'' None
     \<in> set (coinsToSell sampleDates (1704067200000 + 57600000) (samplePrices (Num (301 / 100)))
          [sampleHolding (Num 2) ''2024-01-01T00:00:00.000Z'' None])
   \<and> sampleHolding (Num 0) ''2024-01-01T00:00:00.000Z'' None
     \<in> set (coinsToSell sampleDates (1704067200000 + 57600001) (samplePrices (Num 0))
          [sampleHolding (Num 0) ''2024-01-01T00:00:00.000Z'' None])
   \<and> sampleHolding (Num 0) ''2024-01-01T00:00:00.000Z'' None
     \<notin> set (coinsToSell sampleDates (1704067200000 + 57600000) (samplePrices (Num 5))
          [sampleHolding (Num 0) ''2024-01-01T00:00:00.000Z'' None])
   \<and> sampleHolding (Num 2) ''2024-01-01T00:00:00.000Z'' (Some (Num 3))
     \<notin> set (coinsToSell sampleDates (1704067200000 + 57600001) (samplePrices (Num 9))
          [sampleHolding (Num 2) ''2024-01-01T00:00:00.000Z'' (Some (Num 3))])"
  using coinsToSell_iff [where parse = sampleDates and t = 1704067200000
        and h = "sampleHolding (Num 2) ''2024-01-01T00:00:00.000Z'' None"
        and now = "1704067200000 + 57600000" and currentPrices = "samplePrices (Num 3)"
        and table = "[sampleHolding (Num 2) ''2024-01-01T00:00:00.000Z'' None]"]
    coinsToSell_iff [where parse = sampleDates and t = 1704067200000
        and h = "sampleHolding (Num 2) ''2024-01-01T00:00:00.000Z'' None"
        and now = "1704067200000 + 57600000" and currentPrices = "samplePrices (Num (301 / 100))"
        and table = "[sampleHolding (Num 2) ''2024-01-01T00:00:00.000Z'' None]"]
    coinsToSell_iff [where parse = sampleDates and t = 1704067200000
        and h = "sampleHolding (Num 0) ''2024-01-01T00:00:00.000Z'' None"
        and now = "1704067200000 + 57600001" and currentPrices = "samplePrices (Num 0)"
        and table = "[sampleHolding (Num 0) ''2024-01-01T00:00:00.000Z'' None]"]
    coinsToSell_iff [where parse = sampleDates and t = 1704067200000
        and h = "sampleHolding (Num 0) ''2024-01-01T00:00:00.000Z'' None"
        and now = "1704067200000 + 57600000" and currentPrices = "samplePrices (Num 5)"
        and table = "[sampleHolding (Num 0) ''2024-01-01T00:00:00.000Z'' None]"]
    coinsToSell_iff [where parse = sampleDates and t = 1704067200000
        and h = "sampleHolding (Num 2) ''2024-01-01T00:00:00.000Z'' (Some (Num 3))"
        and now = "1704067200000 + 57600001" and currentPrices = "samplePrices (Num 9)"
        and table = "[sampleHolding (Num 2) ''2024-01-01T00:00:00.000Z'' (Some (Num 3))]"]
  by (simp add: sampleHolding_def samplePrices_def sampleDates_def usdPrice_def js_gt_def
      sixteenHours_def)

section \<open>Closed positions\<close>

lemma closeHolding_length: "length (closeHolding mint price table) = length table"
  by (simp add: closeHolding_def)

lemma closeHolding_closed:
  "i < length table \<Longrightarrow> sell_price (table ! i) \<noteq> None \<Longrightarrow> closeHolding mint price table ! i = table ! i"
  by (simp add: closeHolding_def)

lemma fold_closeHolding_closed:
  "i < length table \<Longrightarrow> sell_price (table ! i) \<noteq> None \<Longrightarrow>
   length (fold (\<lambda>h tbl. closeHolding (f h) (g h) tbl) hs table) = length table
   \<and> fold (\<lambda>h tbl. closeHolding (f h) (g h) tbl) hs table ! i = table ! i"
proof (induction hs arbitrary: table)
  case Nil
  show ?case by simp
next
  case (Cons h hs)
  have "i < length (closeHolding (f h) (g h) table)"
    and "sell_price (closeHolding (f h) (g h) table ! i) \<noteq> None"
    using Cons.prems by (simp_all add: closeHolding_length closeHolding_closed)
  from Cons.IH [OF this] show ?case
    using Cons.prems by (simp add: closeHolding_length closeHolding_closed)
qed

lemma sellPass_closed:
  assumes "i < length table" "sell_price (table ! i) \<noteq> None"
  shows "length (sellPass parse ae now cp table) = length table"
    and "sellPass parse ae now cp table ! i = table ! i"
  using fold_closeHolding_closed [OF assms, of mint_address
      "\<lambda>h. orZero (usdPrice cp (mint_address h))" "coinsToSell parse now cp table"]
  by (simp_all add: sellPass_def)

lemma buyStep_closed:
  assumes "i < length table"
  shows "i < length (buyStep ni np he nt table)" and "buyStep ni np he nt table ! i = table ! i"
  using assms by (simp_all add: buyStep_def nth_append)

lemma lifecyclePass_closed:
  assumes "i < length table" "sell_price (table ! i) \<noteq> None"
  shows "i < length (lifecyclePass parse env table)"
    and "lifecyclePass parse env table ! i = table ! i"
proof -
  let ?t = "buyStep (p_nowIso env) (p_newPrices env) (p_holdingsError env) (p_newTokens env) table"
  have a: "i < length ?t" and b: "?t ! i = table ! i" using assms(1) by (rule buyStep_closed)+
  then have c: "sell_price (?t ! i) \<noteq> None" using assms(2) by simp
  show "i < length (lifecyclePass parse env table)"
    using assms(1) a sellPass_closed(1) [OF a c] by (simp add: lifecyclePass_def)
  show "lifecyclePass parse env table ! i = table ! i"
    using b sellPass_closed(2) [OF a c] by (simp add: lifecyclePass_def)
qed

lemma lifecyclePasses_closed:
  assumes "i < length table" "sell_price (table ! i) \<noteq> None"
  shows "i < length (lifecyclePasses parse envs table)
     \<and> lifecyclePasses parse envs table ! i = table ! i"
  using assms
proof (induction envs arbitrary: table)
  case Nil
  then show ?case by (simp add: lifecyclePasses_def)
next
  case (Cons env envs)
  have a: "i < length (lifecyclePass parse env table)"
    and b: "lifecyclePass parse env table ! i = table ! i"
    using Cons.prems by (rule lifecyclePass_closed)+
  then have "sell_price (lifecyclePass parse env table ! i) \<noteq> None" using Cons.prems by simp
  from Cons.IH [OF a this] b show ?case by (simp add: lifecyclePasses_def)
qed

text \<open>A pass closes an open holding held for more than 16 hours, at the spot price.\<close>

lemma sample_first_pass:
  "lifecyclePass sampleDates (samplePass (1704067200000 + 57600001) (samplePrices (Num 3)))
     [sampleHolding (Num 2) ''2024-01-01T00:00:00.000Z'' None]
   = [sampleHolding (Num 2) ''2024-01-01T00:00:00.000Z'' (Some (Num 3))]"
  by (simp add: lifecyclePass_def samplePass_def sellPass_def buyStep_def activeHoldings_def
      coinsToSell_def shouldSell_def closeHolding_def sampleHolding_def samplePrices_def
      sampleDates_def usdPrice_def sixteenHours_def Let_def)

text \<open>
  Claim C6. A row of the Holdings table whose sell price is set is not among the rows the
  open-positions query selects nor among the rows the exit rule picks, and after any
  number of later passes it is still there, unchanged (so it is never closed again), and
  still outside the selection.
\<close>

theorem closed_position_stays_closed:
  assumes "i < length table" and "sell_price (table ! i) = Some p"
  shows "table ! i \<notin> set (activeHoldings table)
     \<and> table ! i \<notin> set (coinsToSell parse t cp table)
     \<and> i < length (lifecyclePasses parse envs table)
     \<and> lifecyclePasses parse envs table ! i = table ! i
     \<and> lifecyclePasses parse envs table ! i \<notin> set (activeHoldings (lifecyclePasses parse envs table))
     \<and> lifecyclePasses parse envs table ! i
          \<notin> set (coinsToSell parse t cp (lifecyclePasses parse envs table))"
  using assms lifecyclePasses_closed [of i table parse envs]
  by (simp add: activeHoldings_def coinsToSell_def)

text \<open>
  The theorem at a holding closed at 3: two later passes, more than 16 hours after the
  purchase and with spot prices of 9 and 1, leave the row as it is.
\<close>

theorem closed_position_stays_closed_witness:
  "lifecyclePasses sampleDates
     [samplePass (1704067200000 + 60000000) (samplePrices (Num 9)),
      samplePass (1704067200000 + 70000000) (samplePrices (Num 1))]
     [sampleHolding (Num 2) ''2024-01-01T00:00:00.000Z'' (Some (Num 3))] ! 0
   = sampleHolding (Num 2) ''2024-01-01T00:00:00.000Z'' (Some (Num 3))"
proof -
  let ?table = "[sampleHolding (Num 2) ''2024-01-01T00:00:00.000Z'' (Some (Num 3))]"
  have a: "0 < length ?table" by simp
  have b: "sell_price (?table ! 0) = Some (Num 3)" by (simp add: sampleHolding_def)
  from closed_position_stays_closed [OF a b] show ?thesis by simp
qed

section \<open>A holding whose date does not parse\<close>

text \<open>
  What a pass does to an open row: the update is keyed by the mint, so the row is closed,
  at the spot price of its mint, exactly when a selected holding has its mint.
\<close>

lemma closeHolding_nth:
  "i < length table \<Longrightarrow>
   closeHolding mint price table ! i =
     (if mint_address (table ! i) = mint \<and> sell_price (table ! i) = None
      then (table ! i)\<lparr>sell_price := Some price\<rparr> else table ! i)"
  by (simp add: closeHolding_def)

lemma fold_closeHolding_open:
  assumes "i < length table" and "sell_price (table ! i) = None"
  shows "fold (\<lambda>h tbl. closeHolding (mint_address h) (g (mint_address h)) tbl) hs table ! i =
     (if \<exists>h\<in>set hs. mint_address h = mint_address (table ! i)
      then (table ! i)\<lparr>sell_price := Some (g (mint_address (table ! i)))\<rparr> else table ! i)"
  using assms
proof (induction hs arbitrary: table)
  case Nil
  show ?case by simp
next
  case (Cons h hs)
  let ?t = "closeHolding (mint_address h) (g (mint_address h)) table"
  have len: "i < length ?t" using Cons.prems(1) by (simp add: closeHolding_length)
  show ?case
  proof (cases "mint_address h = mint_address (table ! i)")
    case True
    have row: "?t ! i = (table ! i)\<lparr>sell_price := Some (g (mint_address (table ! i)))\<rparr>"
      using Cons.prems True by (simp add: closeHolding_nth)
    then have "sell_price (?t ! i) \<noteq> None" by simp
    from fold_closeHolding_closed [OF len this, of mint_address "\<lambda>h. g (mint_address h)" hs]
    show ?thesis using True row by simp
  next
    case False
    have row: "?t ! i = table ! i" using Cons.prems False by (simp add: closeHolding_nth)
    then have "sell_price (?t ! i) = None" using Cons.prems(2) by simp
    from Cons.IH [OF len this] show ?thesis using False row by simp
  qed
qed

lemma sellPass_open_row:
  assumes "i < length table" and "sell_price (table ! i) = None"
  shows "sellPass parse activeError now cp table ! i =
     (if \<not> activeError \<and> (\<exists>h\<in>set (coinsToSell parse now cp table).
            mint_address h = mint_address (table ! i))
      then (table ! i)\<lparr>sell_price := Some (orZero (usdPrice cp (mint_address (table ! i))))\<rparr>
      else table ! i)"
proof -
  have "table ! i \<in> set (activeHoldings table)"
    using assms by (simp add: activeHoldings_def)
  then have ne: "activeHoldings table \<noteq> []" by auto
  show ?thesis
    using ne fold_closeHolding_open [OF assms, of "\<lambda>m. orZero (usdPrice cp m)"
        "coinsToSell parse now cp table"]
    by (simp add: sellPass_def)
qed

text \<open>
  Claim C10, as the code has it. An open holding whose \<open>bought_at\<close> does not parse is
  selected for closing, whatever the clock says, if and only if its buy price is above zero
  and the spot price is strictly above 1.5 times the buy price: the 16-hour rule never
  fires for it. When no other open holding of the table has its mint, a pass closes it
  exactly in that case (and when the select of the open rows did not fail).
\<close>

theorem unparseable_closed_by_profit_only:
  assumes i: "i < length table" and op: "sell_price (table ! i) = None"
    and un: "parse (bought_at (table ! i)) = None"
  shows "(table ! i \<in> set (coinsToSell parse now cp table) \<longleftrightarrow>
       js_gt (buy_price (table ! i)) (Num 0)
       \<and> js_gt (usdPrice cp (mint_address (table ! i)))
            (js_mult (buy_price (table ! i)) (Num (3 / 2))))
     \<and> ((\<forall>j<length table. j \<noteq> i \<and> sell_price (table ! j) = None
            \<longrightarrow> mint_address (table ! j) \<noteq> mint_address (table ! i))
        \<longrightarrow> (sell_price (sellPass parse activeError now cp table ! i) \<noteq> None \<longleftrightarrow>
              \<not> activeError
              \<and> js_gt (buy_price (table ! i)) (Num 0)
              \<and> js_gt (usdPrice cp (mint_address (table ! i)))
                   (js_mult (buy_price (table ! i)) (Num (3 / 2)))))"
proof (intro conjI impI)
  have mem: "table ! i \<in> set table" using i by simp
  show sel: "table ! i \<in> set (coinsToSell parse now cp table) \<longleftrightarrow>
       js_gt (buy_price (table ! i)) (Num 0)
       \<and> js_gt (usdPrice cp (mint_address (table ! i)))
            (js_mult (buy_price (table ! i)) (Num (3 / 2)))"
    using un shouldSell_unparsed [where parse = parse and h = "table ! i" and now = now
        and currentPrices = cp] mem op
    by (simp add: coinsToSell_def activeHoldings_def)
  assume uniq: "\<forall>j<length table. j \<noteq> i \<and> sell_price (table ! j) = None
            \<longrightarrow> mint_address (table ! j) \<noteq> mint_address (table ! i)"
  have "(\<exists>h\<in>set (coinsToSell parse now cp table). mint_address h = mint_address (table ! i))
      \<longleftrightarrow> table ! i \<in> set (coinsToSell parse now cp table)"
  proof
    assume "\<exists>h\<in>set (coinsToSell parse now cp table). mint_address h = mint_address (table ! i)"
    then obtain h where h: "h \<in> set (coinsToSell parse now cp table)"
      "mint_address h = mint_address (table ! i)" by blast
    then have "h \<in> set table" "sell_price h = None"
      by (simp_all add: coinsToSell_def activeHoldings_def)
    then obtain j where j: "j < length table" "table ! j = h" by (auto simp: in_set_conv_nth)
    with uniq h(2) \<open>sell_price h = None\<close> have "j = i" by auto
    with j h(1) show "table ! i \<in> set (coinsToSell parse now cp table)" by simp
  next
    assume "table ! i \<in> set (coinsToSell parse now cp table)"
    then show "\<exists>h\<in>set (coinsToSell parse now cp table). mint_address h = mint_address (table ! i)"
      by blast
  qed
  then show "sell_price (sellPass parse activeError now cp table ! i) \<noteq> None \<longleftrightarrow>
              \<not> activeError
              \<and> js_gt (buy_price (table ! i)) (Num 0)
              \<and> js_gt (usdPrice cp (mint_address (table ! i)))
                   (js_mult (buy_price (table ! i)) (Num (3 / 2)))"
    using sel op by (simp add: sellPass_open_row [OF i op])
qed


text \<open>
  The theorem at \<open>sampleTable\<close>, more than 16 hours after the purchase of the second
  holding, which is selected: at a spot price of 3 the first holding is not selected and
  stays open, at 4 it is closed.
\<close>

theorem unparseable_closed_by_profit_only_witness:
  "sampleTable ! 0 \<notin> set (coinsToSell sampleDates (1704067200000 + 57600001)
       (samplePrices (Num 3)) sampleTable)
   \<and> sell_price (sellPass sampleDates False (1704067200000 + 57600001)
         (samplePrices (Num 3)) sampleTable ! 0) = None
   \<and> sell_price (sellPass sampleDates False (1704067200000 + 57600001)
         (samplePrices (Num 4)) sampleTable ! 0) \<noteq> None"
proof -
  have i: "0 < length sampleTable" by (simp add: sampleTable_def)
  have op: "sell_price (sampleTable ! 0) = None" by (simp add: sampleTable_def sampleHolding_def)
  have un: "sampleDates (bought_at (sampleTable ! 0)) = None"
    by (simp add: sampleTable_def sampleHolding_def sampleDates_def)
  have uniq: "\<forall>j<length sampleTable. j \<noteq> 0 \<and> sell_price (sampleTable ! j) = None
      \<longrightarrow> mint_address (sampleTable ! j) \<noteq> mint_address (sampleTable ! 0)"
    by (simp add: sampleTable_def sampleHolding_def less_Suc_eq)
  have v: "buy_price (sampleTable ! 0) = Num 2" "mint_address (sampleTable ! 0) = ''mintA''"
    by (simp_all add: sampleTable_def sampleHolding_def)
  from unparseable_closed_by_profit_only [where i = 0 and table = sampleTable
      and parse = sampleDates and now = "1704067200000 + 57600001"
      and cp = "samplePrices (Num 3)" and activeError = False, OF i op un]
    unparseable_closed_by_profit_only [where i = 0 and table = sampleTable
      and parse = sampleDates and now = "1704067200000 + 57600001"
      and cp = "samplePrices (Num 4)" and activeError = False, OF i op un]
  show ?thesis using uniq by (simp add: v samplePrices_def usdPrice_def js_gt_def)
qed

text \<open>
  Claim C10 as stated fails when two open holdings share a mint: the holding whose date
  does not parse has no profit trigger at a spot price of 3, the other one is selected by
  the 16-hour rule, and the update by mint closes both.
\<close>

theorem shared_mint_closes_unparseable_counterexample:
  "sampleDates (bought_at (sampleHolding (Num 2) ''not-a-date'' None)) = None
   \<and> \<not> shouldSell sampleDates (1704067200000 + 57600001) (samplePrices (Num 3))
         (sampleHolding (Num 2) ''not-a-date'' None)
   \<and> \<not> js_gt (usdPrice (samplePrices (Num 3)) ''mintA'') (js_mult (Num 2) (Num (3 / 2)))
   \<and> sell_price (sellPass sampleDates False (1704067200000 + 57600001) (samplePrices (Num 3))
         [sampleHolding (Num 2) ''not-a-date'' None,
          sampleHolding (Num 2) ''2024-01-01T00:00:00.000Z'' None] ! 0) = Some (Num 3)"
  by (simp add: sellPass_def activeHoldings_def coinsToSell_def shouldSell_def closeHolding_def
      sampleHolding_def samplePrices_def sampleDates_def usdPrice_def sixteenHours_def
      js_gt_def js_le_def Let_def)


section \<open>Deduplication and order of the fetched candles\<close>

lemma fold_update_distinct:
  "distinct (map fst m) \<Longrightarrow> distinct (map fst (fold (\<lambda>c m. AList.update (timestamp c) c m) cs m))"
  by (induction cs arbitrary: m) (simp_all add: distinct_update)

lemma find_snoc:
  "find P (xs @ [x]) = (case find P xs of Some y \<Rightarrow> Some y | None \<Rightarrow> if P x then Some x else None)"
  by (induction xs) simp_all

lemma fold_update_map_of:
  "map_of (fold (\<lambda>c m. AList.update (timestamp c) c m) cs m) t =
     (case latestFetched cs t of Some c \<Rightarrow> Some c | None \<Rightarrow> map_of m t)"
proof (induction cs arbitrary: m)
  case Nil
  show ?case by (simp add: latestFetched_def)
next
  case (Cons c cs)
  show ?case
    by (simp add: Cons.IH latestFetched_def find_snoc update_conv' split: option.splits)
qed

lemma uniqueByTimestamp_distinct: "distinct (map fst (uniqueByTimestamp cs))"
  by (simp add: uniqueByTimestamp_def fold_update_distinct)

lemma uniqueByTimestamp_map_of: "map_of (uniqueByTimestamp cs) t = latestFetched cs t"
  by (simp add: uniqueByTimestamp_def fold_update_map_of split: option.splits)

lemma find_SomeD: "find P xs = Some x \<Longrightarrow> P x \<and> x \<in> set xs"
  by (induction xs) (auto split: if_splits)

lemma latestFetched_timestamp: "latestFetched cs t = Some c \<Longrightarrow> timestamp c = t \<and> c \<in> set cs"
  using find_SomeD [of "\<lambda>c. timestamp c = t" "rev cs" c] by (simp add: latestFetched_def)

lemma uniqueByTimestamp_mem:
  "(k, c) \<in> set (uniqueByTimestamp cs) \<longleftrightarrow> latestFetched cs k = Some c"
  using map_of_eq_Some_iff [OF uniqueByTimestamp_distinct, of cs k c]
  by (simp add: uniqueByTimestamp_map_of)

lemma uniqueByTimestamp_keys:
  "map timestamp (map snd (uniqueByTimestamp cs)) = map fst (uniqueByTimestamp cs)"
proof -
  have "timestamp (snd x) = fst x" if "x \<in> set (uniqueByTimestamp cs)" for x
  proof -
    from that have "(fst x, snd x) \<in> set (uniqueByTimestamp cs)" by simp
    then have "latestFetched cs (fst x) = Some (snd x)" by (simp only: uniqueByTimestamp_mem)
    then show ?thesis using latestFetched_timestamp by blast
  qed
  then show ?thesis by simp
qed

lemma uniqueSorted_mem: "c \<in> set (uniqueSorted cs) \<longleftrightarrow> latestFetched cs (timestamp c) = Some c"
proof
  assume "c \<in> set (uniqueSorted cs)"
  then obtain k where "(k, c) \<in> set (uniqueByTimestamp cs)" by (auto simp: uniqueSorted_def)
  then have "latestFetched cs k = Some c" by (simp add: uniqueByTimestamp_mem)
  then show "latestFetched cs (timestamp c) = Some c" using latestFetched_timestamp by blast
next
  assume "latestFetched cs (timestamp c) = Some c"
  then have "(timestamp c, c) \<in> set (uniqueByTimestamp cs)" by (simp add: uniqueByTimestamp_mem)
  then show "c \<in> set (uniqueSorted cs)" by (force simp: uniqueSorted_def)
qed

lemma uniqueSorted_strict: "sorted_wrt (<) (map timestamp (uniqueSorted cs))"
proof -
  let ?vs = "map snd (uniqueByTimestamp cs)"
  have "distinct (map timestamp ?vs)"
    using uniqueByTimestamp_distinct [of cs] by (simp only: uniqueByTimestamp_keys)
  then have "distinct ?vs \<and> inj_on timestamp (set ?vs)" by (simp only: distinct_map)
  then have "distinct (map timestamp (sort_key timestamp ?vs))" by (simp add: distinct_map)
  moreover have "sorted (map timestamp (sort_key timestamp ?vs))" by (rule sorted_sort_key)
  ultimately show ?thesis by (simp add: uniqueSorted_def strict_sorted_iff)
qed

lemma latestFetched_None: "latestFetched cs t = None \<longleftrightarrow> t \<notin> timestamp ` set cs"
  unfolding latestFetched_def find_None_iff by auto

lemma uniqueSorted_timestamps: "timestamp ` set (uniqueSorted cs) = timestamp ` set cs"
proof (intro equalityI subsetI)
  fix t assume "t \<in> timestamp ` set (uniqueSorted cs)"
  then obtain c where "latestFetched cs (timestamp c) = Some c" "t = timestamp c"
    by (auto simp: uniqueSorted_mem)
  then show "t \<in> timestamp ` set cs" using latestFetched_timestamp by blast
next
  fix t assume "t \<in> timestamp ` set cs"
  then obtain c where c: "latestFetched cs t = Some c"
    using latestFetched_None [of cs t] by (cases "latestFetched cs t") auto
  then have "timestamp c = t" using latestFetched_timestamp by blast
  with c have "c \<in> set (uniqueSorted cs)" by (simp add: uniqueSorted_mem)
  then show "t \<in> timestamp ` set (uniqueSorted cs)" using \<open>timestamp c = t\<close> by blast
qed

text \<open>
  Claim C4. Whatever pages the upstream returns, when \<open>fetchAllMinuteCandles\<close> returns a
  candle list, the list is strictly ascending by timestamp, so without duplicate
  timestamps; it has the timestamps of the fetched candles; and a candle is in it exactly
  when it is the one fetched last at its timestamp.
\<close>

theorem fetchAllMinuteCandles_sorted_unique:
  assumes "fetchAllMinuteCandles up poolAddress stopBeforeTimestamp s = (Inr out, s1)"
  shows "sorted_wrt (<) (map timestamp out) \<and> distinct (map timestamp out)
     \<and> (\<exists>fetched. pagesLoop up poolAddress stopBeforeTimestamp None 0 [] s = (Inr fetched, s1)
          \<and> timestamp ` set out = timestamp ` set fetched
          \<and> (\<forall>c. c \<in> set out \<longleftrightarrow> latestFetched fetched (timestamp c) = Some c))"
proof -
  from assms obtain fetched
    where f: "pagesLoop up poolAddress stopBeforeTimestamp None 0 [] s = (Inr fetched, s1)"
      and out: "out = uniqueSorted fetched"
    by (auto simp: fetchAllMinuteCandles_def split: prod.splits sum.splits)
  have "sorted_wrt (<) (map timestamp out)" unfolding out by (rule uniqueSorted_strict)
  moreover from this have "distinct (map timestamp out)" by (simp add: strict_sorted_iff)
  ultimately show ?thesis using f
    by (simp add: out uniqueSorted_timestamps uniqueSorted_mem)
qed


text \<open>The two pages of \<open>overlappingPages\<close>: the candle at 160 of the second page is kept.\<close>

lemma overlapping_eval:
  "fetchAllMinuteCandles overlappingPages ''poolA'' None net0
   = (Inr [\<lparr>timestamp = 100, high = 3\<rparr>, \<lparr>timestamp = 160, high = 6\<rparr>, \<lparr>timestamp = 200, high = 5\<rparr>],
      \<lparr>fetches = 2, requests = 2, slept = []\<rparr>)"
  by code_simp


text \<open>The theorem at \<open>overlappingPages\<close>.\<close>

theorem fetchAllMinuteCandles_sorted_unique_witness:
  "fetchAllMinuteCandles overlappingPages ''poolA'' None net0
     = (Inr [\<lparr>timestamp = 100, high = 3\<rparr>, \<lparr>timestamp = 160, high = 6\<rparr>,
             \<lparr>timestamp = 200, high = 5\<rparr>],
        \<lparr>fetches = 2, requests = 2, slept = []\<rparr>)
   \<and> sorted_wrt (<) (map timestamp [\<lparr>timestamp = 100, high = 3\<rparr>, \<lparr>timestamp = 160, high = 6\<rparr>,
             \<lparr>timestamp = 200, high = 5\<rparr>])
   \<and> (\<exists>fetched.
         pagesLoop overlappingPages ''poolA'' None None 0 [] net0
           = (Inr fetched, \<lparr>fetches = 2, requests = 2, slept = []\<rparr>)
         \<and> latestFetched fetched 160 = Some \<lparr>timestamp = 160, high = 6\<rparr>)"
proof -
  from fetchAllMinuteCandles_sorted_unique [OF overlapping_eval]
  obtain fetched where f: "pagesLoop overlappingPages ''poolA'' None None 0 [] net0
           = (Inr fetched, \<lparr>fetches = 2, requests = 2, slept = []\<rparr>)"
    and l: "\<forall>c. c \<in> set [\<lparr>timestamp = 100, high = 3\<rparr>, \<lparr>timestamp = 160, high = 6\<rparr>,
             \<lparr>timestamp = 200, high = 5\<rparr>] \<longleftrightarrow> latestFetched fetched (timestamp c) = Some c"
    by blast
  from l have "\<lparr>timestamp = 160, high = 6\<rparr> \<in> set [\<lparr>timestamp = 100, high = 3\<rparr>,
      \<lparr>timestamp = 160, high = 6\<rparr>, \<lparr>timestamp = 200, high = 5\<rparr>] \<longleftrightarrow>
      latestFetched fetched (timestamp \<lparr>timestamp = 160, high = (6::rat)\<rparr>)
      = Some \<lparr>timestamp = 160, high = 6\<rparr>" by (rule spec)
  then have "latestFetched fetched 160 = Some \<lparr>timestamp = 160, high = 6\<rparr>" by simp
  with f overlapping_eval show ?thesis by auto
qed

section \<open>The early exit of the pagination\<close>

lemma fetchJsonWithRetry_ok:
  assumes "up u (fetches s) = Response status (Some j)" and "ok status"
  shows "fetchJsonWithRetry up u 3 s
     = (Inr j, s\<lparr>requests := requests s + 1, fetches := fetches s + 1\<rparr>)"
  using assms
  by (simp add: fetchJsonWithRetry_def retryLoop.simps [of _ _ _ "Suc 0"] fetch_def Let_def)

lemma pagesLoop_noStop_unfold:
  "pagesLoop_noStop up p b n cs s =
     (if n < maxPages then
        (case fetch up (OhlcvUrl p b) s of
           (Rejected, s1) \<Rightarrow> (Inl FetchRejected, s1)
         | (Response status body, s1) \<Rightarrow>
             if \<not> ok status then (Inl FailedToLoad, s1)
             else
               (case body of
                  None \<Rightarrow> (Inl JsonSyntaxError, s1)
                | Some j \<Rightarrow>
                    (case pageStep None j cs of
                       (cs1, None) \<Rightarrow> (Inr cs1, s1)
                     | (cs1, Some b1) \<Rightarrow> pagesLoop_noStop up p (Some b1) (n + 1) cs1 s1)))
      else (Inr cs, s))"
  by (subst pagesLoop_noStop.simps)
    (auto simp: pageStep_def reachedStop_def Let_def
      split: prod.splits outcome.splits option.splits list.splits)

lemma pageStep_fst: "fst (pageStep st j cs) = cs @ pageOf j"
  by (auto simp: pageStep_def pageOf_def Let_def pageCandlesOf_def split: list.splits)

lemma fold_min_le: "fold min xs (a::rat) \<le> a"
proof (induction xs arbitrary: a)
  case Nil
  show ?case by simp
next
  case (Cons x xs)
  have "fold min xs (min x a) \<le> min x a" by (rule Cons.IH)
  then show ?case by simp
qed

lemma oldestOf_le: "oldestOf c cs \<le> timestamp c"
  by (simp add: oldestOf_def fold_min_le)

lemma pageStep_Some:
  assumes "pageStep st j cs = (cs1, Some b1)"
  shows "pageStep None j cs = (cs1, Some b1)"
    and "\<exists>c\<in>set (pageOf j). b1 + 60 \<le> timestamp c"
    and "\<forall>k. st = Some k \<longrightarrow> \<not> b1 + 60 \<le> of_int k"
  using assms oldestOf_le
  by (auto simp: pageStep_def pageOf_def reachedStop_def Let_def
      split: list.splits if_splits option.splits)

lemma pageStep_None:
  assumes "pageStep st j cs = (cs1, None)"
  shows "pageStep None j cs = (cs1, None)
     \<or> (\<exists>b1 k. pageStep None j cs = (cs1, Some b1) \<and> st = Some k \<and> b1 + 60 \<le> of_int k)"
  using assms
  by (auto simp: pageStep_def reachedStop_def Let_def
      split: list.splits if_splits option.splits)

lemma fetch_page:
  assumes "\<forall>b n. up (OhlcvUrl p b) n = Response 200 (Some (page b))"
  shows "fetch up (OhlcvUrl p b) s = (Response 200 (Some (page b)), s\<lparr>fetches := fetches s + 1\<rparr>)"
    and "fetchJsonWithRetry up (OhlcvUrl p b) 3 s
       = (Inr (page b), s\<lparr>requests := requests s + 1, fetches := fetches s + 1\<rparr>)"
proof -
  have u: "up (OhlcvUrl p b) (fetches s) = Response 200 (Some (page b))" using assms by simp
  show "fetch up (OhlcvUrl p b) s = (Response 200 (Some (page b)), s\<lparr>fetches := fetches s + 1\<rparr>)"
    using u by (simp add: fetch_def)
  show "fetchJsonWithRetry up (OhlcvUrl p b) 3 s
       = (Inr (page b), s\<lparr>requests := requests s + 1, fetches := fetches s + 1\<rparr>)"
    using u by (rule fetchJsonWithRetry_ok) (simp add: ok_def)
qed

lemma noStop_tail:
  assumes up: "\<forall>b n. up (OhlcvUrl p b) n = Response 200 (Some (page b))"
    and honor: "\<forall>cursor. \<forall>c\<in>set (pageOf (page (Some cursor))). timestamp c < cursor"
  shows "\<exists>Z s2. pagesLoop_noStop up p (Some cur) n cs s = (Inr (cs @ Z), s2)
     \<and> (\<forall>z\<in>set Z. timestamp z < cur)"
proof (induction "maxPages - n" arbitrary: cur n cs s rule: less_induct)
  case less
  show ?case
  proof (cases "n < maxPages")
    case False
    then have "pagesLoop_noStop up p (Some cur) n cs s = (Inr (cs @ []), s)"
      by (simp add: pagesLoop_noStop_unfold)
    then show ?thesis by fastforce
  next
    case True
    let ?j = "page (Some cur)"
    let ?s1 = "s\<lparr>fetches := fetches s + 1\<rparr>"
    obtain cs1 nb where ps: "pageStep None ?j cs = (cs1, nb)" by (cases "pageStep None ?j cs")
    have cs1: "cs1 = cs @ pageOf ?j" using pageStep_fst [of None ?j cs] ps by simp
    have old: "\<forall>c\<in>set (pageOf ?j). timestamp c < cur" using honor by blast
    show ?thesis
    proof (cases nb)
      case None
      have "pagesLoop_noStop up p (Some cur) n cs s = (Inr (cs @ pageOf ?j), ?s1)"
        using True ps None cs1 fetch_page(1) [OF up, of "Some cur" s]
        by (simp add: pagesLoop_noStop_unfold [of up p "Some cur" n] ok_def)
      then show ?thesis using old by blast
    next
      case (Some b1)
      have step: "pagesLoop_noStop up p (Some cur) n cs s
          = pagesLoop_noStop up p (Some b1) (n + 1) (cs @ pageOf ?j) ?s1"
        using True ps Some cs1 fetch_page(1) [OF up, of "Some cur" s]
        by (simp add: pagesLoop_noStop_unfold [of up p "Some cur" n] ok_def)
      from pageStep_Some(2) [OF ps [unfolded Some]] old have b1: "b1 < cur" by fastforce
      have "maxPages - (n + 1) < maxPages - n" using True by simp
      from less [OF this, of b1 "cs @ pageOf ?j" ?s1]
      obtain Z s2 where z: "pagesLoop_noStop up p (Some b1) (n + 1) (cs @ pageOf ?j) ?s1
          = (Inr ((cs @ pageOf ?j) @ Z), s2)" "\<forall>z\<in>set Z. timestamp z < b1"
        by blast
      have "pagesLoop_noStop up p (Some cur) n cs s = (Inr (cs @ (pageOf ?j @ Z)), s2)"
        using step z(1) by simp
      moreover have "\<forall>z\<in>set (pageOf ?j @ Z). timestamp z < cur"
        using old z(2) b1 by fastforce
      ultimately show ?thesis by blast
    qed
  qed
qed

lemma loops_related:
  assumes up: "\<forall>b n. up (OhlcvUrl p b) n = Response 200 (Some (page b))"
    and honor: "\<forall>cursor. \<forall>c\<in>set (pageOf (page (Some cursor))). timestamp c < cursor"
  shows "\<exists>Y Z s1 s2. pagesLoop up p st b n cs s = (Inr (cs @ Y), s1)
     \<and> pagesLoop_noStop up p b n cs s' = (Inr (cs @ Y @ Z), s2)
     \<and> (\<forall>z\<in>set Z. \<exists>k. st = Some k \<and> timestamp z < of_int k)"
proof (induction "maxPages - n" arbitrary: b n cs s s' rule: less_induct)
  case less
  show ?case
  proof (cases "n < maxPages")
    case False
    then have "pagesLoop up p st b n cs s = (Inr (cs @ []), s)"
      and "pagesLoop_noStop up p b n cs s' = (Inr (cs @ [] @ []), s')"
      by (simp_all add: pagesLoop_unfold pagesLoop_noStop_unfold)
    then show ?thesis by fastforce
  next
    case True
    let ?j = "page b"
    let ?s1 = "s\<lparr>requests := requests s + 1, fetches := fetches s + 1\<rparr>"
    let ?s1' = "s'\<lparr>fetches := fetches s' + 1\<rparr>"
    obtain cs1 nb where ps: "pageStep st ?j cs = (cs1, nb)" by (cases "pageStep st ?j cs")
    have cs1: "cs1 = cs @ pageOf ?j" using pageStep_fst [of st ?j cs] ps by simp
    have unf: "pagesLoop up p st b n cs s =
        (case nb of None \<Rightarrow> (Inr cs1, ?s1) | Some b1 \<Rightarrow> pagesLoop up p st (Some b1) (n + 1) cs1 ?s1)"
      using True ps fetch_page(2) [OF up, of b s]
      by (simp add: pagesLoop_unfold [of up p st b n] split: option.splits)
    have unf': "pagesLoop_noStop up p b n cs s' =
        (case pageStep None ?j cs of (c1, None) \<Rightarrow> (Inr c1, ?s1')
         | (c1, Some b1) \<Rightarrow> pagesLoop_noStop up p (Some b1) (n + 1) c1 ?s1')"
      using True fetch_page(1) [OF up, of b s']
      by (simp add: pagesLoop_noStop_unfold [of up p b n] ok_def split: prod.splits option.splits)
    have dec: "maxPages - (n + 1) < maxPages - n" using True by simp
    show ?thesis
    proof (cases nb)
      case (Some b1)
      have same: "pageStep None ?j cs = (cs1, Some b1)"
        using pageStep_Some(1) ps Some by blast
      from less [OF dec, of "Some b1" cs1 ?s1 ?s1']
      obtain Y Z s1 s2 where r: "pagesLoop up p st (Some b1) (n + 1) cs1 ?s1 = (Inr (cs1 @ Y), s1)"
        "pagesLoop_noStop up p (Some b1) (n + 1) cs1 ?s1' = (Inr (cs1 @ Y @ Z), s2)"
        "\<forall>z\<in>set Z. \<exists>k. st = Some k \<and> timestamp z < of_int k"
        by blast
      have "pagesLoop up p st b n cs s = (Inr (cs @ (pageOf ?j @ Y)), s1)"
        using unf Some r(1) cs1 by simp
      moreover have "pagesLoop_noStop up p b n cs s' = (Inr (cs @ (pageOf ?j @ Y) @ Z), s2)"
        using unf' same r(2) cs1 by simp
      ultimately show ?thesis using r(3) by blast
    next
      case None
      have l: "pagesLoop up p st b n cs s = (Inr (cs @ pageOf ?j), ?s1)"
        using unf None cs1 by simp
      from pageStep_None [OF ps [unfolded None]]
      consider "pageStep None ?j cs = (cs1, None)"
        | b1 k where "pageStep None ?j cs = (cs1, Some b1)" "st = Some k" "b1 + 60 \<le> of_int k"
        by blast
      then show ?thesis
      proof cases
        case 1
        then have "pagesLoop_noStop up p b n cs s' = (Inr (cs @ pageOf ?j @ []), ?s1')"
          using unf' cs1 by simp
        with l show ?thesis by fastforce
      next
        case 2
        from noStop_tail [OF up honor, of b1 "n + 1" cs1 ?s1']
        obtain Z s2 where z: "pagesLoop_noStop up p (Some b1) (n + 1) cs1 ?s1' = (Inr (cs1 @ Z), s2)"
          "\<forall>z\<in>set Z. timestamp z < b1" by blast
        have "pagesLoop_noStop up p b n cs s' = (Inr (cs @ pageOf ?j @ Z), s2)"
          using unf' 2(1) z(1) cs1 by simp
        moreover have "\<forall>z\<in>set Z. \<exists>k. st = Some k \<and> timestamp z < of_int k"
          using z(2) 2(2,3) by fastforce
        ultimately show ?thesis using l by blast
      qed
    qed
  qed
qed


lemma find_append_None: "find P xs = None \<Longrightarrow> find P (xs @ ys) = find P ys"
  by (induction xs) (auto split: if_splits)

lemma latestFetched_append_older:
  assumes "\<forall>z\<in>set Z. timestamp z \<noteq> t"
  shows "latestFetched (Y @ Z) t = latestFetched Y t"
proof -
  have "find (\<lambda>c. timestamp c = t) (rev Z) = None" using assms by (simp add: find_None_iff)
  then show ?thesis by (simp add: latestFetched_def find_append_None)
qed

lemma strict_sorted_key_unique:
  fixes f :: "'a \<Rightarrow> 'b::linorder"
  assumes "sorted_wrt (<) (map f xs)" and "sorted_wrt (<) (map f ys)" and "set xs = set ys"
  shows "xs = ys"
proof -
  have sx: "sorted (map f xs)" "distinct (map f xs)" and sy: "sorted (map f ys)" "distinct (map f ys)"
    using assms(1,2) by (simp_all add: strict_sorted_iff)
  have "set (map f xs) = set (map f ys)" using assms(3) by simp
  then have eq: "map f xs = map f ys" using sx sy by (simp add: sorted_distinct_set_unique)
  have "inj_on f (set xs \<union> set ys)" using sx(2) assms(3) by (simp add: distinct_map)
  then show ?thesis using eq by (simp add: inj_on_map_eq_map)
qed

lemma strict_sorted_filter:
  "sorted_wrt (<) (map f xs) \<Longrightarrow> sorted_wrt (<) (map f (filter P xs))"
  by (induction xs) auto

lemma filter_uniqueSorted_older:
  assumes "\<forall>z\<in>set Z. timestamp z < lo"
  shows "filter (\<lambda>c. lo \<le> timestamp c) (uniqueSorted (Y @ Z))
       = filter (\<lambda>c. lo \<le> timestamp c) (uniqueSorted Y)"
proof (rule strict_sorted_key_unique [where f = timestamp])
  show "sorted_wrt (<) (map timestamp (filter (\<lambda>c. lo \<le> timestamp c) (uniqueSorted (Y @ Z))))"
    by (rule strict_sorted_filter) (rule uniqueSorted_strict)
  show "sorted_wrt (<) (map timestamp (filter (\<lambda>c. lo \<le> timestamp c) (uniqueSorted Y)))"
    by (rule strict_sorted_filter) (rule uniqueSorted_strict)
  show "set (filter (\<lambda>c. lo \<le> timestamp c) (uniqueSorted (Y @ Z)))
      = set (filter (\<lambda>c. lo \<le> timestamp c) (uniqueSorted Y))"
  proof (intro equalityI subsetI)
    fix c assume "c \<in> set (filter (\<lambda>c. lo \<le> timestamp c) (uniqueSorted (Y @ Z)))"
    then have c: "latestFetched (Y @ Z) (timestamp c) = Some c" "lo \<le> timestamp c"
      by (simp_all add: uniqueSorted_mem)
    have "\<forall>z\<in>set Z. timestamp z \<noteq> timestamp c" using assms c(2) by fastforce
    then have "latestFetched Y (timestamp c) = Some c"
      using c(1) by (simp add: latestFetched_append_older)
    then show "c \<in> set (filter (\<lambda>c. lo \<le> timestamp c) (uniqueSorted Y))"
      using c(2) by (simp add: uniqueSorted_mem)
  next
    fix c assume "c \<in> set (filter (\<lambda>c. lo \<le> timestamp c) (uniqueSorted Y))"
    then have c: "latestFetched Y (timestamp c) = Some c" "lo \<le> timestamp c"
      by (simp_all add: uniqueSorted_mem)
    have "\<forall>z\<in>set Z. timestamp z \<noteq> timestamp c" using assms c(2) by fastforce
    then have "latestFetched (Y @ Z) (timestamp c) = Some c"
      using c(1) by (simp add: latestFetched_append_older)
    then show "c \<in> set (filter (\<lambda>c. lo \<le> timestamp c) (uniqueSorted (Y @ Z)))"
      using c(2) by (simp add: uniqueSorted_mem)
  qed
qed

lemma computeBestSell_filter_cong:
  assumes "\<And>secs. unixSeconds parse boughtAt = Some secs \<Longrightarrow>
      filter (\<lambda>c. of_int secs \<le> timestamp c) cs1 = filter (\<lambda>c. of_int secs \<le> timestamp c) cs2"
  shows "computeBestSell parse buyPrice boughtAt cs1 = computeBestSell parse buyPrice boughtAt cs2"
  using assms by (simp add: computeBestSell_def split: jsnum.splits option.splits)

text \<open>
  Claim C8. Let the upstream answer every candle request of the pool with status 200 and a
  page that depends on the cursor only, and let every page requested before a cursor hold
  only candles older than the cursor. Then both variants return a candle list, the one
  with the early exit at the purchase second and the one of \<open>api/best-sell.js\<close> without
  it, and \<open>computeBestSell\<close> gives the same result on the two lists.
\<close>

theorem early_exit_same_best_sell:
  assumes up: "\<forall>b n. up (OhlcvUrl poolAddress b) n = Response 200 (Some (page b))"
    and honor: "\<forall>cursor. \<forall>c\<in>set (pageOf (page (Some cursor))). timestamp c < cursor"
  shows "\<exists>withStop withoutStop s1 s2.
      fetchAllMinuteCandles up poolAddress (unixSeconds parse boughtAt) s = (Inr withStop, s1)
      \<and> fetchAllMinuteCandles_noStop up poolAddress s' = (Inr withoutStop, s2)
      \<and> computeBestSell parse buyPrice boughtAt withStop
          = computeBestSell parse buyPrice boughtAt withoutStop"
proof -
  let ?st = "unixSeconds parse boughtAt"
  from loops_related [OF up honor, of ?st None 0 "[]" s s']
  obtain Y Z s1 s2 where l: "pagesLoop up poolAddress ?st None 0 [] s = (Inr Y, s1)"
    and l': "pagesLoop_noStop up poolAddress None 0 [] s' = (Inr (Y @ Z), s2)"
    and z: "\<forall>z\<in>set Z. \<exists>k. ?st = Some k \<and> timestamp z < of_int k"
    by auto
  have a: "fetchAllMinuteCandles up poolAddress ?st s = (Inr (uniqueSorted Y), s1)"
    using l by (simp add: fetchAllMinuteCandles_def)
  have b: "fetchAllMinuteCandles_noStop up poolAddress s' = (Inr (uniqueSorted (Y @ Z)), s2)"
    using l' by (simp add: fetchAllMinuteCandles_noStop_def)
  have "computeBestSell parse buyPrice boughtAt (uniqueSorted Y)
      = computeBestSell parse buyPrice boughtAt (uniqueSorted (Y @ Z))"
  proof (rule computeBestSell_filter_cong)
    fix secs assume s: "?st = Some secs"
    with z have "\<forall>z\<in>set Z. timestamp z < of_int secs" by fastforce
    then show "filter (\<lambda>c. of_int secs \<le> timestamp c) (uniqueSorted Y)
        = filter (\<lambda>c. of_int secs \<le> timestamp c) (uniqueSorted (Y @ Z))"
      by (simp add: filter_uniqueSorted_older)
  qed
  with a b show ?thesis by blast
qed


text \<open>
  The two variants at \<open>olderPages\<close>, for a purchase at second 100: the early exit stops
  after the first page, the other variant fetches the older candle as well.
\<close>

lemma olderPages_with_stop:
  "fetchAllMinuteCandles olderPages ''poolA'' (Some 100) net0
   = (Inr [\<lparr>timestamp = 100, high = 4\<rparr>, \<lparr>timestamp = 200, high = 5\<rparr>],
      \<lparr>fetches = 1, requests = 1, slept = []\<rparr>)"
  by code_simp

lemma olderPages_without_stop:
  "fetchAllMinuteCandles_noStop olderPages ''poolA'' net0
   = (Inr [\<lparr>timestamp = - 20, high = 9\<rparr>, \<lparr>timestamp = 100, high = 4\<rparr>,
           \<lparr>timestamp = 200, high = 5\<rparr>],
      \<lparr>fetches = 2, requests = 0, slept = []\<rparr>)"
  by code_simp

text \<open>
  The theorem at \<open>olderPages\<close>: the lists differ by the candle before the purchase, the
  best exit is the same.
\<close>

theorem early_exit_same_best_sell_witness:
  "fetchAllMinuteCandles olderPages ''poolA''
       (unixSeconds sampleDates ''1970-01-01T00:01:40.000Z'') net0
     = (Inr [\<lparr>timestamp = 100, high = 4\<rparr>, \<lparr>timestamp = 200, high = 5\<rparr>],
        \<lparr>fetches = 1, requests = 1, slept = []\<rparr>)
   \<and> fetchAllMinuteCandles_noStop olderPages ''poolA'' net0
     = (Inr [\<lparr>timestamp = - 20, high = 9\<rparr>, \<lparr>timestamp = 100, high = 4\<rparr>,
             \<lparr>timestamp = 200, high = 5\<rparr>],
        \<lparr>fetches = 2, requests = 0, slept = []\<rparr>)
   \<and> computeBestSell sampleDates (Num 1) ''1970-01-01T00:01:40.000Z''
         [\<lparr>timestamp = 100, high = 4\<rparr>, \<lparr>timestamp = 200, high = 5\<rparr>]
     = computeBestSell sampleDates (Num 1) ''1970-01-01T00:01:40.000Z''
         [\<lparr>timestamp = - 20, high = 9\<rparr>, \<lparr>timestamp = 100, high = 4\<rparr>,
          \<lparr>timestamp = 200, high = 5\<rparr>]"
proof -
  have h1: "\<forall>b n. olderPages (OhlcvUrl ''poolA'' b) n = Response 200 (Some (olderPage b))"
    by (simp add: olderPages_def)
  have h2: "\<forall>cursor. \<forall>c\<in>set (pageOf (olderPage (Some cursor))). timestamp c < cursor"
    by (simp add: pageOf_def olderPage_def pageCandlesOf_def toCandle_def List.map_filter_simps)
  have st: "unixSeconds sampleDates ''1970-01-01T00:01:40.000Z'' = Some 100"
    by (simp add: unixSeconds_def sampleDates_def)
  from early_exit_same_best_sell [OF h1 h2, of sampleDates "''1970-01-01T00:01:40.000Z''" net0
      net0 "Num 1"]
  show ?thesis unfolding st olderPages_with_stop olderPages_without_stop by simp
qed


section \<open>The page cap is reached\<close>

text \<open>
  Against an upstream whose every page has 1000 rows, some of them valid, and without a
  floor, the loop stops at the cap only: it asks for exactly the pages that remain.
\<close>

lemma pagesLoop_full_pages:
  assumes up: "\<forall>b n. up (OhlcvUrl p b) n = Response 200 (Some (page b))"
    and full: "\<forall>b. \<exists>rows. ohlcv_list (page b) = Some rows \<and> length rows = 1000
        \<and> pageCandlesOf rows \<noteq> []"
  shows "requests (snd (pagesLoop up p None b n cs s)) = requests s + (maxPages - n)"
proof (induction "maxPages - n" arbitrary: b n cs s rule: less_induct)
  case less
  show ?case
  proof (cases "n < maxPages")
    case False
    then show ?thesis by (simp add: pagesLoop_unfold)
  next
    case True
    let ?s1 = "s\<lparr>requests := requests s + 1, fetches := fetches s + 1\<rparr>"
    from full obtain rows where r: "ohlcv_list (page b) = Some rows" "length rows = 1000"
      "pageCandlesOf rows \<noteq> []" by blast
    then obtain c rest where c: "pageCandlesOf rows = c # rest" by (cases "pageCandlesOf rows") auto
    have ps: "pageStep None (page b) cs = (cs @ c # rest, Some (oldestOf c rest - 60))"
      using r c by (auto simp: pageStep_def reachedStop_def)
    have step: "pagesLoop up p None b n cs s
        = pagesLoop up p None (Some (oldestOf c rest - 60)) (n + 1) (cs @ c # rest) ?s1"
      using True ps fetch_page(2) [OF up, of b s] by (simp add: pagesLoop_unfold [of up p None b n])
    have "maxPages - (n + 1) < maxPages - n" using True by simp
    from less [OF this, of "Some (oldestOf c rest - 60)" "cs @ c # rest" ?s1]
    show ?thesis unfolding step using True by simp
  qed
qed


section \<open>Properties of the best-exit query endpoint\<close>

lemma computeBestSell_result:
  "computeBestSell parse buyPrice boughtAt candles = Inr r \<Longrightarrow> r = nullBestSell \<or> populated r"
  by (auto simp: computeBestSell_def populated_def Let_def
      split: jsnum.splits option.splits list.splits sum.splits if_splits)

lemma resJson_shape:
  "resJson buyPrice r = r \<or> (bestSellPrice r \<noteq> None \<and> resJson buyPrice r = r\<lparr>bestPlPercent := None\<rparr>)"
  by (auto simp: resJson_def split: jsnum.splits option.splits)

text \<open>
  Claim C7, as the code has it. A method other than GET is rejected with 405. A GET without
  \<open>mintAddress\<close>, without \<open>boughtAt\<close> (absent or empty) or with a \<open>buyPrice\<close> that is
  not finite is rejected with 400. Every other request gets a 200 envelope, whatever the
  upstream does. When the pool lookup, the candle fetch or \<open>computeBestSell\<close> throws, the
  envelope holds the all-absent result and the error as warning. Otherwise it has no
  warning and holds the result of \<open>computeBestSell\<close>, all absent or populated, as
  \<open>res.json\<close> writes it: unchanged, or, when the percentage is not finite as a double,
  with the percentage null beside the time and the price.
\<close>

theorem handler_responses:
  "(req_method req \<noteq> ''GET'' \<longrightarrow> fst (handler parse toNumber up req s) = Reject 405)
   \<and> (req_method req = ''GET''
        \<and> (q_mintAddress req \<in> {None, Some []} \<or> q_boughtAt req \<in> {None, Some []}
            \<or> \<not> isFinite (case q_buyPrice req of None \<Rightarrow> NaN | Some v \<Rightarrow> toNumber v))
       \<longrightarrow> fst (handler parse toNumber up req s) = Reject 400)
   \<and> (\<forall>m b v. req_method req = ''GET'' \<and> q_mintAddress req = Some m \<and> m \<noteq> []
          \<and> q_boughtAt req = Some b \<and> b \<noteq> [] \<and> q_buyPrice req = Some v \<and> isFinite (toNumber v)
       \<longrightarrow> (\<exists>result warning. fst (handler parse toNumber up req s) = Envelope 200 result warning)
         \<and> (\<forall>e s1. fetchTopSolanaPoolAddress up m s = (Inl e, s1)
              \<longrightarrow> handler parse toNumber up req s = (Envelope 200 nullBestSell (Some e), s1))
         \<and> (\<forall>pool s1 e s2. fetchTopSolanaPoolAddress up m s = (Inr pool, s1)
                \<and> fetchAllMinuteCandles up pool (unixSeconds parse b) s1 = (Inl e, s2)
              \<longrightarrow> handler parse toNumber up req s = (Envelope 200 nullBestSell (Some e), s2))
         \<and> (\<forall>pool s1 cs s2 e. fetchTopSolanaPoolAddress up m s = (Inr pool, s1)
                \<and> fetchAllMinuteCandles up pool (unixSeconds parse b) s1 = (Inr cs, s2)
                \<and> computeBestSell parse (toNumber v) b cs = Inl e
              \<longrightarrow> handler parse toNumber up req s = (Envelope 200 nullBestSell (Some e), s2))
         \<and> (\<forall>pool s1 cs s2 r. fetchTopSolanaPoolAddress up m s = (Inr pool, s1)
                \<and> fetchAllMinuteCandles up pool (unixSeconds parse b) s1 = (Inr cs, s2)
                \<and> computeBestSell parse (toNumber v) b cs = Inr r
              \<longrightarrow> handler parse toNumber up req s
                    = (Envelope 200 (resJson (toNumber v) r) None, s2)
                \<and> (r = nullBestSell \<or> populated r)
                \<and> (resJson (toNumber v) r = r
                    \<or> (populated r \<and> resJson (toNumber v) r = r\<lparr>bestPlPercent := None\<rparr>))))"
proof (intro conjI impI allI)
  show "fst (handler parse toNumber up req s) = Reject 405" if "req_method req \<noteq> ''GET''"
    using that by (simp add: handler_def)
next
  assume "req_method req = ''GET''
        \<and> (q_mintAddress req \<in> {None, Some []} \<or> q_boughtAt req \<in> {None, Some []}
            \<or> \<not> isFinite (case q_buyPrice req of None \<Rightarrow> NaN | Some v \<Rightarrow> toNumber v))"
  then show "fst (handler parse toNumber up req s) = Reject 400"
    by (auto simp: handler_def Let_def split: option.splits)
next
  fix m b v
  assume q: "req_method req = ''GET'' \<and> q_mintAddress req = Some m \<and> m \<noteq> []
          \<and> q_boughtAt req = Some b \<and> b \<noteq> [] \<and> q_buyPrice req = Some v \<and> isFinite (toNumber v)"
  then show "\<exists>result warning. fst (handler parse toNumber up req s) = Envelope 200 result warning"
    by (auto simp: handler_def Let_def split: prod.splits sum.splits)
next
  fix m b v e s1
  assume "req_method req = ''GET'' \<and> q_mintAddress req = Some m \<and> m \<noteq> []
          \<and> q_boughtAt req = Some b \<and> b \<noteq> [] \<and> q_buyPrice req = Some v \<and> isFinite (toNumber v)"
    and "fetchTopSolanaPoolAddress up m s = (Inl e, s1)"
  then show "handler parse toNumber up req s = (Envelope 200 nullBestSell (Some e), s1)"
    by (simp add: handler_def Let_def)
next
  fix m b v pool s1 e s2
  assume "req_method req = ''GET'' \<and> q_mintAddress req = Some m \<and> m \<noteq> []
          \<and> q_boughtAt req = Some b \<and> b \<noteq> [] \<and> q_buyPrice req = Some v \<and> isFinite (toNumber v)"
    and "fetchTopSolanaPoolAddress up m s = (Inr pool, s1)
          \<and> fetchAllMinuteCandles up pool (unixSeconds parse b) s1 = (Inl e, s2)"
  then show "handler parse toNumber up req s = (Envelope 200 nullBestSell (Some e), s2)"
    by (simp add: handler_def Let_def)
next
  fix m b v pool s1 cs s2 e
  assume "req_method req = ''GET'' \<and> q_mintAddress req = Some m \<and> m \<noteq> []
          \<and> q_boughtAt req = Some b \<and> b \<noteq> [] \<and> q_buyPrice req = Some v \<and> isFinite (toNumber v)"
    and "fetchTopSolanaPoolAddress up m s = (Inr pool, s1)
          \<and> fetchAllMinuteCandles up pool (unixSeconds parse b) s1 = (Inr cs, s2)
          \<and> computeBestSell parse (toNumber v) b cs = Inl e"
  then show "handler parse toNumber up req s = (Envelope 200 nullBestSell (Some e), s2)"
    by (simp add: handler_def Let_def)
next
  fix m b v pool s1 cs s2 r
  assume q: "req_method req = ''GET'' \<and> q_mintAddress req = Some m \<and> m \<noteq> []
          \<and> q_boughtAt req = Some b \<and> b \<noteq> [] \<and> q_buyPrice req = Some v \<and> isFinite (toNumber v)"
    and f: "fetchTopSolanaPoolAddress up m s = (Inr pool, s1)
          \<and> fetchAllMinuteCandles up pool (unixSeconds parse b) s1 = (Inr cs, s2)
          \<and> computeBestSell parse (toNumber v) b cs = Inr r"
  from q f show "handler parse toNumber up req s
      = (Envelope 200 (resJson (toNumber v) r) None, s2)"
    by (simp add: handler_def Let_def)
  from f show shape: "r = nullBestSell \<or> populated r" using computeBestSell_result by blast
  show "resJson (toNumber v) r = r
      \<or> (populated r \<and> resJson (toNumber v) r = r\<lparr>bestPlPercent := None\<rparr>)"
    using shape resJson_shape [of "toNumber v" r] by (auto simp: nullBestSell_def)
qed


text \<open>The pool lookup against an upstream that answers 404 to every call.\<close>

lemma pool_lookup_fails:
  "fetchTopSolanaPoolAddress alwaysNotFound ''mintA'' net0
   = (Inl (UpstreamStatus 404), \<lparr>fetches = 3, requests = 1, slept = [250, 500]\<rparr>)"
  by (simp add: fetchTopSolanaPoolAddress_def fetchJsonWithRetry_def alwaysNotFound_def net0_def
      retryLoop.simps [of _ _ _ "Suc 0"] retryLoop.simps [of _ _ _ "Suc (Suc 0)"]
      retryLoop.simps [of _ _ _ "Suc (Suc (Suc 0))"] retryLoop.simps [of _ _ _ "Suc (Suc (Suc (Suc 0)))"]
      fetch_def ok_def retryable_def catchBlock_def sleep_def Let_def)

text \<open>
  The theorem at a POST, at a GET without \<open>buyPrice\<close>, and at a well-formed GET against an
  upstream that answers 404 to every call: the envelope has status 200, the all-absent
  result and the upstream error as warning.
\<close>

theorem handler_responses_witness:
  "fst (handler sampleDates sampleNumber alwaysNotFound
          (sampleRequest\<lparr>req_method := ''POST''\<rparr>) net0) = Reject 405
   \<and> fst (handler sampleDates sampleNumber alwaysNotFound
          (sampleRequest\<lparr>q_buyPrice := None\<rparr>) net0) = Reject 400
   \<and> handler sampleDates sampleNumber alwaysNotFound sampleRequest net0
       = (Envelope 200 nullBestSell (Some (UpstreamStatus 404)),
          \<lparr>fetches = 3, requests = 1, slept = [250, 500]\<rparr>)"
  using handler_responses [of "sampleRequest\<lparr>req_method := ''POST''\<rparr>" sampleDates sampleNumber
      alwaysNotFound net0]
    handler_responses [of "sampleRequest\<lparr>q_buyPrice := None\<rparr>" sampleDates sampleNumber
      alwaysNotFound net0]
    handler_responses [of sampleRequest sampleDates sampleNumber alwaysNotFound net0]
    pool_lookup_fails
  by (simp add: sampleRequest_def sampleNumber_def)

text \<open>
  A candle with a high of 1e308 and a buy price of 1e-10: the percentage overflows, and the
  envelope holds the time and the price with a null percentage.
\<close>

lemma handler_overflow:
  "fst (handler sampleDates sampleNumber hugeHigh (sampleRequest\<lparr>q_buyPrice := Some ''1e-10''\<rparr>) net0)
   = Envelope 200 \<lparr>bestSellAt = Some 1704067260000, bestSellPrice = Some (10 ^ 308),
        bestPlPercent = None\<rparr> None"
  by (simp add: handler_def sampleRequest_def sampleNumber_def hugeHigh_def net0_def
      fetchTopSolanaPoolAddress_def fetchAllMinuteCandles_def fetchJsonWithRetry_def
      retryLoop.simps [of _ _ _ "Suc 0"] fetch_def ok_def Let_def
      pagesLoop.simps [of _ _ _ _ 0] maxPages_def unixSeconds_def sampleDates_def
      pageCandlesOf_def toCandle_def List.map_filter_simps oldestOf_def reachedStop_def
      uniqueSorted_def uniqueByTimestamp_def computeBestSell_def toISOString_def
      resJson_def percentDouble_def toDouble_def overflowBound_def)

text \<open>
  Claim C7 as stated fails for a well-formed GET about a pool without candles: the upstream
  answers every call, and the envelope holds the all-absent result without a warning.
\<close>

theorem handler_absent_without_warning_counterexample:
  "req_method sampleRequest = ''GET''
   \<and> fst (handler sampleDates sampleNumber quietPool sampleRequest net0)
       = Envelope 200 nullBestSell None
   \<and> \<not> populated nullBestSell"
  by (simp add: handler_def sampleRequest_def sampleNumber_def quietPool_def net0_def
      fetchTopSolanaPoolAddress_def fetchAllMinuteCandles_def fetchJsonWithRetry_def
      retryLoop.simps [of _ _ _ "Suc 0"] fetch_def ok_def Let_def emptyPage_def
      pagesLoop.simps [of _ _ _ _ 0] maxPages_def unixSeconds_def sampleDates_def
      uniqueSorted_def uniqueByTimestamp_def computeBestSell_def populated_def
      nullBestSell_def resJson_def)


end
